theory Spec2Isabelle
  imports Main "HOL-Library.Word"
begin

section \<open>The byte cache with TTL and size limit: data model\<close>

text \<open>
  A shallow embedding of the Go package \<open>cache\<close>. Every method of \<open>*Cache\<close> is a
  function that takes the cache value and returns the updated one. A function
  describes one call, or one background pass, that runs without interference; the
  locks (\<open>mx\<close>, \<open>expMx\<close>) delimit the sections of a call that other goroutines cannot
  split, and the sections that a call runs under separate locks are functions of
  their own (section \<open>The critical sections\<close>), so that a run can place other
  operations between them.

  Time: a \<open>time.Time\<close> is the number of nanoseconds since Go's zero instant
  (January 1, year 1, 00:00:00 UTC), so that \<open>IsZero\<close> is the test against 0. A
  \<open>time.Duration\<close> is a number of nanoseconds. Every call of \<open>time.Now()\<close> in the
  source is an argument of the function that makes it, in the order of the calls.
\<close>

type_synonym byte = "8 word"
type_synonym time = int
type_synonym duration = int

definition IsZero :: "time \<Rightarrow> bool" where
  "IsZero t = (t = 0)"

definition Before :: "time \<Rightarrow> time \<Rightarrow> bool" where
  "Before t u = (t < u)"

definition After :: "time \<Rightarrow> time \<Rightarrow> bool" where
  "After t u = (u < t)"

definition Add :: "time \<Rightarrow> duration \<Rightarrow> time" where
  "Add t d = t + d"

text \<open>
  \<open>UnixNano\<close> counts nanoseconds since January 1, 1970 in an \<open>int64\<close>; the Unix epoch
  is 62135596800 seconds after the zero instant. The result wraps around outside
  the years 1678 to 2262, as the 64-bit arithmetic of the source does. The conversion
  \<open>int(...)\<close> in \<open>compact\<close> is the identity on a 64-bit platform.
\<close>

definition unixEpoch :: int where
  "unixEpoch = 62135596800000000000"

definition UnixNano :: "time \<Rightarrow> int" where
  "UnixNano t = sint (word_of_int (t - unixEpoch) :: 64 word)"

datatype error = ErrNotFound | ErrCallback string

type_synonym GetCallback = "string \<Rightarrow> error + byte list"

record item =
  data :: "byte list"
  ttl :: time
  lu :: time

text \<open>
  The field \<open>size\<close> of the source is \<open>size_counter\<close> here. The map \<open>storage\<close> holds
  pointers to items in the source; no pointer escapes a call, so the map holds the
  items themselves and a write through the pointer is an update of the map.
\<close>

record Cache =
  storage :: "string \<rightharpoonup> item"
  expired :: "string set"
  clearExpireTimout :: duration
  checkExpireTimout :: duration
  sizeLimit :: int
  size_counter :: int

definition defaultClearExpireTimeout :: duration where
  "defaultClearExpireTimeout = 3600000000000"

definition defaultCheckExpireTimeout :: duration where
  "defaultCheckExpireTimeout = 3600000000000"

definition defaultSizeLimit :: int where
  "defaultSizeLimit = 1024 * 1024"

type_synonym OptionFunc = "Cache \<Rightarrow> Cache"

definition WithClearExpireTimeout :: "duration \<Rightarrow> OptionFunc" where
  "WithClearExpireTimeout t = (\<lambda>c. c\<lparr>clearExpireTimout := t\<rparr>)"

definition WithCheckExpireTimeout :: "duration \<Rightarrow> OptionFunc" where
  "WithCheckExpireTimeout t = (\<lambda>c. c\<lparr>checkExpireTimout := t\<rparr>)"

definition WithSizeLimit :: "int \<Rightarrow> OptionFunc" where
  "WithSizeLimit l = (\<lambda>c. c\<lparr>sizeLimit := l\<rparr>)"

text \<open>
  \<open>New\<close> builds the cache and applies the options in order. The two goroutines it
  starts are the background passes \<open>clear_pass\<close> and \<open>scanExpired_pass\<close> below.
\<close>

definition New :: "OptionFunc list \<Rightarrow> Cache" where
  "New options = fold (\<lambda>opt c. opt c) options
     \<lparr>storage = Map.empty, expired = {},
      clearExpireTimout = defaultClearExpireTimeout,
      checkExpireTimout = defaultCheckExpireTimeout,
      sizeLimit = defaultSizeLimit, size_counter = 0\<rparr>"

section \<open>The public operations\<close>

text \<open>
  \<open>Get c key now1 now2\<close>: \<open>now1\<close> is the clock reading of the expiry test, \<open>now2\<close> the
  one stored in \<open>lu\<close>. The result is the returned pair (as a sum) and the cache. This
  is the call when nothing runs between its lookup and the rest; \<open>Get_mark\<close> and
  \<open>Get_touch\<close> below are the rest when something does.
\<close>

definition Get :: "Cache \<Rightarrow> string \<Rightarrow> time \<Rightarrow> time \<Rightarrow> (error + byte list) \<times> Cache" where
  "Get c key now1 now2 =
     (case storage c key of
        None \<Rightarrow> (Inl ErrNotFound, c)
      | Some i \<Rightarrow>
          if \<not> IsZero (ttl i) \<and> Before (ttl i) now1
          then (Inl ErrNotFound, c\<lparr>expired := insert key (expired c)\<rparr>)
          else (Inr (data i), c\<lparr>storage := (storage c)(key \<mapsto> i\<lparr>lu := now2\<rparr>)\<rparr>))"

text \<open>
  \<open>Put\<close> and \<open>PutWithTTL\<close> return nothing in the source. The result here is the flag
  whether the call started a \<open>compact\<close> goroutine, and the cache as the call leaves it.
  The goroutine is a pass of \<open>compact\<close> (below) on that cache or on a later one: it may
  run before the next call of the caller.
\<close>

definition Put :: "Cache \<Rightarrow> string \<Rightarrow> byte list \<Rightarrow> time \<Rightarrow> bool \<times> Cache" where
  "Put c key d now =
     (if int (length d) \<ge> sizeLimit c then (False, c)
      else
        let c1 = c\<lparr>storage := (storage c)(key \<mapsto> \<lparr>data = d, ttl = 0, lu = now\<rparr>),
                   expired := expired c - {key}\<rparr>;
            n = size_counter c1 + int (length d)
        in (n > sizeLimit c1, c1\<lparr>size_counter := n\<rparr>))"

definition PutWithTTL :: "Cache \<Rightarrow> string \<Rightarrow> byte list \<Rightarrow> duration \<Rightarrow> time \<Rightarrow> time \<Rightarrow> bool \<times> Cache" where
  "PutWithTTL c key d t now1 now2 =
     (if int (length d) \<ge> sizeLimit c then (False, c)
      else
        let c1 = c\<lparr>storage := (storage c)(key \<mapsto> \<lparr>data = d, ttl = Add now1 t, lu = now2\<rparr>),
                   expired := expired c - {key}\<rparr>;
            n = size_counter c1 + int (length d)
        in (n > sizeLimit c1, c1\<lparr>size_counter := n\<rparr>))"

text \<open>
  \<open>GetOrNew\<close> and \<open>GetOrNewWithTTL\<close>: the result is the returned pair together with the
  flag whether the inner put started a \<open>compact\<close> goroutine, and the cache.
\<close>

definition GetOrNew :: "Cache \<Rightarrow> string \<Rightarrow> GetCallback \<Rightarrow> time \<Rightarrow> time \<Rightarrow> time \<Rightarrow> ((error + byte list) \<times> bool) \<times> Cache" where
  "GetOrNew c key cb now1 now2 now3 =
     (case Get c key now1 now2 of
        (Inr d, c1) \<Rightarrow> ((Inr d, False), c1)
      | (Inl err, c1) \<Rightarrow>
          (case cb key of
             Inl e \<Rightarrow> ((Inl e, False), c1)
           | Inr d \<Rightarrow>
               (case Put c1 key d now3 of (started, c2) \<Rightarrow> ((Inr d, started), c2))))"

definition GetOrNewWithTTL :: "Cache \<Rightarrow> string \<Rightarrow> duration \<Rightarrow> GetCallback \<Rightarrow> time \<Rightarrow> time \<Rightarrow> time \<Rightarrow> time \<Rightarrow> ((error + byte list) \<times> bool) \<times> Cache" where
  "GetOrNewWithTTL c key t cb now1 now2 now3 now4 =
     (case Get c key now1 now2 of
        (Inr d, c1) \<Rightarrow> ((Inr d, False), c1)
      | (Inl err, c1) \<Rightarrow>
          (case cb key of
             Inl e \<Rightarrow> ((Inl e, False), c1)
           | Inr d \<Rightarrow>
               (case PutWithTTL c1 key d t now3 now4 of (started, c2) \<Rightarrow> ((Inr d, started), c2))))"

definition Has :: "Cache \<Rightarrow> string \<Rightarrow> time \<Rightarrow> bool \<times> Cache" where
  "Has c key now =
     (case storage c key of
        None \<Rightarrow> (False, c)
      | Some i \<Rightarrow> (IsZero (ttl i) \<or> After (ttl i) now, c))"

definition Delete :: "Cache \<Rightarrow> string \<Rightarrow> Cache" where
  "Delete c key =
     (case storage c key of
        None \<Rightarrow> c
      | Some i \<Rightarrow> c\<lparr>storage := (storage c)(key := None),
                     size_counter := size_counter c - int (length (data i))\<rparr>)"

section \<open>The background passes\<close>

text \<open>
  Go visits the keys of a map in an order it does not specify. Each loop over a map
  takes that order as the list \<open>ks\<close>; for a pass of the source, \<open>ks\<close> lists every key
  of the map once (\<open>keys_of\<close>).
\<close>

definition keys_of :: "('k \<rightharpoonup> 'v) \<Rightarrow> 'k list \<Rightarrow> bool" where
  "keys_of m ks = (distinct ks \<and> set ks = dom m)"

text \<open>The first loop of \<open>compact\<close>: the table \<open>s\<close> from timestamp to key and the slice \<open>t\<close>.\<close>

fun snapshot :: "Cache \<Rightarrow> string list \<Rightarrow> (int \<rightharpoonup> string) \<Rightarrow> int list \<Rightarrow> (int \<rightharpoonup> string) \<times> int list" where
  "snapshot c [] s t = (s, t)"
| "snapshot c (key # ks) s t =
     (case storage c key of
        None \<Rightarrow> snapshot c ks s t
      | Some i \<Rightarrow> (let n = UnixNano (lu i) in snapshot c ks (s(n \<mapsto> key)) (t @ [n])))"

text \<open>
  The second loop of \<open>compact\<close>. Reading a key that a Go map lacks gives the zero
  value, the empty string.
\<close>

fun compact_loop :: "Cache \<Rightarrow> (int \<rightharpoonup> string) \<Rightarrow> int list \<Rightarrow> Cache" where
  "compact_loop c s [] = c"
| "compact_loop c s (skey # t) =
     (let key = (case s skey of None \<Rightarrow> [] | Some k \<Rightarrow> k) in
      case storage c key of
        None \<Rightarrow> compact_loop c s t
      | Some i \<Rightarrow>
          (let c1 = c\<lparr>storage := (storage c)(key := None),
                      size_counter := size_counter c - int (length (data i))\<rparr>
           in if size_counter c1 < sizeLimit c1 then c1 else compact_loop c1 s t))"

definition compact :: "Cache \<Rightarrow> string list \<Rightarrow> Cache" where
  "compact c ks = (case snapshot c ks Map.empty [] of (s, t) \<Rightarrow> compact_loop c s (sort t))"

text \<open>
  One iteration of the endless loop of \<open>scanExpired\<close>, between the test of the
  context and the sleep.
\<close>

fun scanExpired_pass :: "Cache \<Rightarrow> time \<Rightarrow> string list \<Rightarrow> Cache" where
  "scanExpired_pass c now [] = c"
| "scanExpired_pass c now (key # ks) =
     (case storage c key of
        None \<Rightarrow> scanExpired_pass c now ks
      | Some i \<Rightarrow>
          if \<not> IsZero (ttl i) \<and> Before (ttl i) now
          then scanExpired_pass (c\<lparr>expired := insert key (expired c)\<rparr>) now ks
          else scanExpired_pass c now ks)"

text \<open>
  One iteration of the endless loop of \<open>clear\<close>; \<open>ks\<close> lists the keys of \<open>expired\<close>.
\<close>

fun clear_pass :: "Cache \<Rightarrow> string list \<Rightarrow> Cache" where
  "clear_pass c [] = c"
| "clear_pass c (key # ks) =
     (let c1 = c\<lparr>expired := expired c - {key}\<rparr> in
      case storage c1 key of
        None \<Rightarrow> clear_pass c1 ks
      | Some i \<Rightarrow>
          clear_pass (c1\<lparr>storage := (storage c1)(key := None),
                         size_counter := size_counter c1 - int (length (data i))\<rparr>) ks)"

section \<open>The critical sections\<close>

text \<open>
  \<open>Get\<close> releases \<open>mx\<close> after the lookup and takes \<open>expMx\<close> only then, so other
  goroutines can run between the lookup and the rest of the call. The lookup changes
  nothing. \<open>Get_mark\<close> is the mark of an entry that the lookup found expired
  (\<open>c.expired[key] = struct{}{}\<close> under \<open>expMx\<close>), on the cache as it is by then.
\<close>

definition Get_mark :: "Cache \<Rightarrow> string \<Rightarrow> Cache" where
  "Get_mark c key = c\<lparr>expired := insert key (expired c)\<rparr>"

text \<open>
  \<open>Get_touch\<close> is the write \<open>i.lu = time.Now()\<close> through the pointer that the lookup
  returned. It reaches the storage map when the key still holds that item; the
  function writes to whatever item the key holds by then, which includes that case,
  and does nothing when the key holds none.
\<close>

definition Get_touch :: "Cache \<Rightarrow> string \<Rightarrow> time \<Rightarrow> Cache" where
  "Get_touch c key now2 =
     (case storage c key of
        None \<Rightarrow> c
      | Some i \<Rightarrow> c\<lparr>storage := (storage c)(key \<mapsto> i\<lparr>lu := now2\<rparr>)\<rparr>)"

text \<open>
  \<open>Put\<close> and \<open>PutWithTTL\<close> write the entry and drop the mark under both locks, and add
  to the counter (and start the compaction) after they released them. \<open>compact\<close>
  fills its table under a read lock and runs its second loop under the write lock.
  \<open>Delete\<close>, \<open>Has\<close>, a scan and a clearing pass hold their locks from start to end.
\<close>

definition Put_store :: "Cache \<Rightarrow> string \<Rightarrow> byte list \<Rightarrow> time \<Rightarrow> Cache" where
  "Put_store c key d now =
     c\<lparr>storage := (storage c)(key \<mapsto> \<lparr>data = d, ttl = 0, lu = now\<rparr>),
       expired := expired c - {key}\<rparr>"

definition PutWithTTL_store :: "Cache \<Rightarrow> string \<Rightarrow> byte list \<Rightarrow> duration \<Rightarrow> time \<Rightarrow> time \<Rightarrow> Cache" where
  "PutWithTTL_store c key d t now1 now2 =
     c\<lparr>storage := (storage c)(key \<mapsto> \<lparr>data = d, ttl = Add now1 t, lu = now2\<rparr>),
       expired := expired c - {key}\<rparr>"

definition Put_count :: "Cache \<Rightarrow> byte list \<Rightarrow> bool \<times> Cache" where
  "Put_count c d =
     (let n = size_counter c + int (length d) in (n > sizeLimit c, c\<lparr>size_counter := n\<rparr>))"

section \<open>Sequences of operations\<close>

text \<open>
  A reachable state is the result of a list of operations on a new cache. An
  operation is a call or a background pass that runs without interference, or one
  critical section of a call whose other sections ran earlier. The passes and the
  sections may come at any point of the list, which covers every moment at which the
  goroutines of the source can run; the lists include some that the source cannot
  produce (a mark with no lookup before it, a table that no first loop built).
\<close>

datatype op =
    OpGet string time time
  | OpGetOrNew string GetCallback time time time
  | OpGetOrNewWithTTL string duration GetCallback time time time time
  | OpHas string time
  | OpDelete string
  | OpPut string "byte list" time
  | OpPutWithTTL string "byte list" duration time time
  | OpCompact "string list"
  | OpScanExpired time "string list"
  | OpClear "string list"
  | OpGetMark string
  | OpGetTouch string time
  | OpPutStore string "byte list" time
  | OpPutWithTTLStore string "byte list" duration time time
  | OpPutCount "byte list"
  | OpCompactLoop "int \<rightharpoonup> string" "int list"

fun exec :: "Cache \<Rightarrow> op \<Rightarrow> Cache" where
  "exec c (OpGet key n1 n2) = snd (Get c key n1 n2)"
| "exec c (OpGetOrNew key cb n1 n2 n3) = snd (GetOrNew c key cb n1 n2 n3)"
| "exec c (OpGetOrNewWithTTL key t cb n1 n2 n3 n4) = snd (GetOrNewWithTTL c key t cb n1 n2 n3 n4)"
| "exec c (OpHas key n) = snd (Has c key n)"
| "exec c (OpDelete key) = Delete c key"
| "exec c (OpPut key d n) = snd (Put c key d n)"
| "exec c (OpPutWithTTL key d t n1 n2) = snd (PutWithTTL c key d t n1 n2)"
| "exec c (OpCompact ks) = compact c ks"
| "exec c (OpScanExpired n ks) = scanExpired_pass c n ks"
| "exec c (OpClear ks) = clear_pass c ks"
| "exec c (OpGetMark key) = Get_mark c key"
| "exec c (OpGetTouch key n) = Get_touch c key n"
| "exec c (OpPutStore key d n) = Put_store c key d n"
| "exec c (OpPutWithTTLStore key d t n1 n2) = PutWithTTL_store c key d t n1 n2"
| "exec c (OpPutCount d) = snd (Put_count c d)"
| "exec c (OpCompactLoop s t) = compact_loop c s t"

definition run :: "Cache \<Rightarrow> op list \<Rightarrow> Cache" where
  "run c ops = foldl exec c ops"

section \<open>Notions used in the statements\<close>

text \<open>The sum of \<open>len(data)\<close> over the entries of the storage map.\<close>

definition storage_bytes :: "Cache \<Rightarrow> int" where
  "storage_bytes c = (\<Sum>k \<in> dom (storage c). int (length (data (the (storage c k)))))"

text \<open>The options that the package exports.\<close>

definition is_option :: "OptionFunc \<Rightarrow> bool" where
  "is_option f = (\<exists>v. f = WithClearExpireTimeout v \<or> f = WithCheckExpireTimeout v \<or> f = WithSizeLimit v)"

definition marks_stored :: "Cache \<Rightarrow> bool" where
  "marks_stored c = (expired c \<subseteq> dom (storage c))"

text \<open>
  \<open>keeps_marked c x\<close>: the operation \<open>x\<close>, run on \<open>c\<close>, removes the entry of no marked
  key and marks no key that has no entry. It restricts three operations: \<open>Delete\<close>
  (the key is not marked), a compaction (the keys it evicts are not marked) and the
  late mark of \<open>Get\<close> (the key still has an entry). \<open>safe_run c xs\<close>: every operation
  of the list has this property on the state it runs on.
\<close>

fun keeps_marked :: "Cache \<Rightarrow> op \<Rightarrow> bool" where
  "keeps_marked c (OpDelete key) = (key \<notin> expired c)"
| "keeps_marked c (OpCompact ks) =
     ((dom (storage c) - dom (storage (compact c ks))) \<inter> expired c = {})"
| "keeps_marked c (OpCompactLoop s t) =
     ((dom (storage c) - dom (storage (compact_loop c s t))) \<inter> expired c = {})"
| "keeps_marked c (OpGetMark key) = (key \<in> dom (storage c))"
| "keeps_marked c _ = True"

fun safe_run :: "Cache \<Rightarrow> op list \<Rightarrow> bool" where
  "safe_run c [] = True"
| "safe_run c (x # xs) = (keeps_marked c x \<and> safe_run (exec c x) xs)"

text \<open>The test of \<open>Get\<close> and \<open>scanExpired\<close>: the entry has an expiry time and it has passed.\<close>

definition stale :: "Cache \<Rightarrow> time \<Rightarrow> string \<Rightarrow> bool" where
  "stale c now key =
     (case storage c key of None \<Rightarrow> False | Some i \<Rightarrow> \<not> IsZero (ttl i) \<and> Before (ttl i) now)"

text \<open>
  The sort key of \<open>compact\<close> for the entry of a key, and its \<open>lu\<close>; \<open>lu_in_range\<close> says
  that \<open>UnixNano\<close> does not wrap around on the \<open>lu\<close> of the entries of \<open>ks\<close>.
\<close>

definition lu_key :: "Cache \<Rightarrow> string \<Rightarrow> int" where
  "lu_key c key = (case storage c key of None \<Rightarrow> 0 | Some i \<Rightarrow> UnixNano (lu i))"

definition lu_of :: "Cache \<Rightarrow> string \<Rightarrow> time" where
  "lu_of c key = (case storage c key of None \<Rightarrow> 0 | Some i \<Rightarrow> lu i)"

definition lu_in_range :: "Cache \<Rightarrow> string list \<Rightarrow> bool" where
  "lu_in_range c ks = list_all (\<lambda>k. unixEpoch - 2 ^ 63 \<le> lu_of c k \<and> lu_of c k < unixEpoch + 2 ^ 63) ks"

text \<open>
  The compaction of the specification: remove the entries in the given order, each
  as \<open>Delete\<close> does, and stop as soon as the counter is below the limit; the order is
  ascending in \<open>lu\<close>.
\<close>

fun evict_until :: "Cache \<Rightarrow> string list \<Rightarrow> Cache" where
  "evict_until c [] = c"
| "evict_until c (key # ks) =
     (let c1 = Delete c key in
      if size_counter c1 < sizeLimit c1 then c1 else evict_until c1 ks)"

definition spec_compact :: "Cache \<Rightarrow> string list \<Rightarrow> Cache" where
  "spec_compact c ks = evict_until c (sort_key (lu_of c) ks)"

text \<open>
  \<open>exact_and_newest c key ks\<close>: \<open>ks\<close> lists the keys of the storage, the counter is the
  stored total, the \<open>lu\<close> of the entries are pairwise different and inside the range
  of \<open>UnixNano\<close>, and the entry of \<open>key\<close> has the newest.
\<close>

definition exact_and_newest :: "Cache \<Rightarrow> string \<Rightarrow> string list \<Rightarrow> bool" where
  "exact_and_newest c key ks =
     (keys_of (storage c) ks \<and> size_counter c = storage_bytes c \<and>
      (\<forall>k \<in> dom (storage c) - {key}. lu_of c k < lu_of c key) \<and>
      inj_on (lu_of c) (dom (storage c)) \<and> lu_in_range c ks)"

subsection \<open>Example states\<close>

text \<open>A new cache with the entry \<open>foo\<close>, written at time 1000 with a TTL of 50.\<close>

definition cache_foo :: Cache where
  "cache_foo = snd (PutWithTTL (New []) ''foo'' [16] 50 1000 1000)"

text \<open>The cache of the tests \<open>Put_over_size\<close>: empty, with a size limit of one byte.\<close>

definition cache_limit1 :: Cache where
  "cache_limit1 = New [WithSizeLimit 1]"

text \<open>
  An entry \<open>k\<close> with a TTL of 50 nanoseconds, read after it has expired (the clock
  readings are in the year 1997); then two more entries, the second of which takes
  the counter over a size limit of 2.
\<close>

definition marked_ops :: "op list" where
  "marked_ops = [OpPutWithTTL ''k'' [1] 50 63000000000000001000 63000000000000001000,
                 OpGet ''k'' 63000000000000002000 63000000000000002000]"

definition full_ops :: "op list" where
  "full_ops = marked_ops @ [OpPut ''a'' [2] 63000000000000003000, OpPut ''b'' [3] 63000000000000004000]"

definition cache_marked :: Cache where
  "cache_marked = run (New []) marked_ops"





text \<open>
  Three puts of one byte on a cache with a size limit of 2; the first two read the
  same clock value. The third takes the counter to 3 and starts a compaction.
\<close>

definition tie_ops :: "op list" where
  "tie_ops = [OpPut ''a'' [1] 63000000000000000005, OpPut ''b'' [2] 63000000000000000005,
     OpPut ''c'' [3] 63000000000000000007]"

definition cache_tie :: Cache where
  "cache_tie = run (New [WithSizeLimit 2]) tie_ops"


text \<open>
  The states of the test \<open>TestPut_compact\<close>: three entries of five bytes, used 1, 2
  and 3 seconds ago, under a size limit of 20; then the put of \<open>5\<close> (four bytes) and the
  put of \<open>6\<close> (seven bytes).
\<close>

definition cache_three :: Cache where
  "cache_three = (New [])\<lparr>
     storage := [''1'' \<mapsto> \<lparr>data = [49, 50, 51, 52, 53], ttl = 0, lu = 63000000009000000000\<rparr>,
                 ''2'' \<mapsto> \<lparr>data = [49, 50, 51, 52, 53], ttl = 0, lu = 63000000008000000000\<rparr>,
                 ''3'' \<mapsto> \<lparr>data = [49, 50, 51, 52, 53], ttl = 0, lu = 63000000007000000000\<rparr>],
     sizeLimit := 20, size_counter := 15\<rparr>"

definition cache_five :: Cache where
  "cache_five = snd (Put cache_three ''5'' [49, 50, 51, 52] 63000000010000000000)"

definition cache_six :: Cache where
  "cache_six = snd (Put cache_five ''6'' [49, 50, 51, 52, 53, 54, 55] 63000000010050000000)"

text \<open>
  A run in which nothing removes the entry of a marked key: \<open>a\<close> (two bytes), then \<open>k\<close>
  with a TTL, read after it expired; the put of \<open>b\<close> takes the counter over a limit of
  3 and the compaction evicts \<open>a\<close> alone; a late mark of \<open>k\<close>; \<open>c\<close> is put and deleted.
\<close>

definition safe_ops :: "op list" where
  "safe_ops =
     [OpPut ''a'' [1, 2] 63000000000000001000,
      OpPutWithTTL ''k'' [1] 50 63000000000000002000 63000000000000002000,
      OpGet ''k'' 63000000000000003000 63000000000000003000,
      OpPut ''b'' [3] 63000000000000004000,
      OpCompact [''a'', ''k'', ''b''],
      OpGetMark ''k'',
      OpPut ''c'' [4] 63000000000000005000,
      OpDelete ''c'']"

text \<open>
  The key \<open>a\<close> put twice with one byte, under a size limit of 2: the counter is 2 and
  one byte is stored. Then \<open>foo\<close> is written to it, by \<open>Put\<close>, by \<open>PutWithTTL\<close> (a TTL
  of one millisecond) and by \<open>GetOrNew\<close>.
\<close>

definition cache_drift :: Cache where
  "cache_drift = run (New [WithSizeLimit 2])
     [OpPut ''a'' [1] 63000000000000001000, OpPut ''a'' [1] 63000000000000002000]"

definition cache_drift_put :: Cache where
  "cache_drift_put = snd (Put cache_drift ''foo'' [16] 63000000000000003000)"

definition cache_drift_putttl :: Cache where
  "cache_drift_putttl =
     snd (PutWithTTL cache_drift ''foo'' [16] 1000000 63000000000000003000 63000000000000003001)"



text \<open>
  Two puts of two bytes that read the same clock value, under a size limit of 3: the
  counter is the stored total, 4.
\<close>

definition cache_one_x :: Cache where
  "cache_one_x = run (New [WithSizeLimit 3]) [OpPut ''x'' [1, 2] 63000000000000001000]"

definition cache_same_clock :: Cache where
  "cache_same_clock = snd (Put cache_one_x ''foo'' [3, 4] 63000000000000001000)"

section \<open>The options and the background passes\<close>

lemma is_option_fields:
  assumes "is_option f"
  shows "storage (f c) = storage c \<and> expired (f c) = expired c \<and> size_counter (f c) = size_counter c"
proof -
  from assms obtain v where
    "f = WithClearExpireTimeout v \<or> f = WithCheckExpireTimeout v \<or> f = WithSizeLimit v"
    unfolding is_option_def by blast
  then show ?thesis
    by (elim disjE)
       (simp_all add: WithClearExpireTimeout_def WithCheckExpireTimeout_def WithSizeLimit_def)
qed

lemma fold_options_fields:
  "list_all is_option options \<Longrightarrow>
   storage (fold (\<lambda>opt c. opt c) options c) = storage c \<and>
   expired (fold (\<lambda>opt c. opt c) options c) = expired c \<and>
   size_counter (fold (\<lambda>opt c. opt c) options c) = size_counter c"
proof (induction options arbitrary: c)
  case Nil
  show ?case by simp
next
  case (Cons f fs)
  then have f: "is_option f" and fs: "list_all is_option fs" by simp_all
  show ?case using Cons.IH [OF fs, of "f c"] is_option_fields [OF f, of c] by simp
qed

lemma New_fields:
  assumes "list_all is_option options"
  shows "storage (New options) = Map.empty \<and> expired (New options) = {} \<and> size_counter (New options) = 0"
  unfolding New_def using fold_options_fields [OF assms] by simp

lemma stale_expired_update [simp]: "stale (c\<lparr>expired := e\<rparr>) now key = stale c now key"
  by (simp add: stale_def)

lemma scanExpired_pass_step:
  "scanExpired_pass c now (key # ks) =
     scanExpired_pass (if stale c now key then c\<lparr>expired := insert key (expired c)\<rparr> else c) now ks"
  by (simp add: stale_def split: option.split)

lemma scanExpired_pass_storage [simp]: "storage (scanExpired_pass c now ks) = storage c"
proof (induction ks arbitrary: c)
  case Nil
  show ?case by simp
next
  case (Cons key ks)
  show ?case unfolding scanExpired_pass_step by (simp add: Cons.IH)
qed

text \<open>A scan marks exactly the stale keys it visits and removes no mark.\<close>

lemma scanExpired_pass_expired:
  "expired (scanExpired_pass c now ks) = expired c \<union> {k \<in> set ks. stale c now k}"
proof (induction ks arbitrary: c)
  case Nil
  show ?case by simp
next
  case (Cons key ks)
  show ?case
  proof (cases "stale c now key")
    case True
    have "expired (scanExpired_pass c now (key # ks)) =
          insert key (expired c) \<union> {k \<in> set ks. stale c now k}"
      unfolding scanExpired_pass_step using True by (simp add: Cons.IH)
    also have "\<dots> = expired c \<union> {k \<in> set (key # ks). stale c now k}"
      using True by auto
    finally show ?thesis .
  next
    case False
    have "expired (scanExpired_pass c now (key # ks)) = expired c \<union> {k \<in> set ks. stale c now k}"
      unfolding scanExpired_pass_step using False by (simp add: Cons.IH)
    also have "\<dots> = expired c \<union> {k \<in> set (key # ks). stale c now k}"
      using False by auto
    finally show ?thesis .
  qed
qed

lemma scanExpired_pass_expired_sub:
  "expired (scanExpired_pass c now ks) \<subseteq> expired c \<union> dom (storage c)"
  unfolding scanExpired_pass_expired by (auto simp: stale_def split: option.splits)

text \<open>A clearing pass drops the marks and the entries of the keys it visits.\<close>

lemma clear_pass_expired: "expired (clear_pass c ks) = expired c - set ks"
  by (induction ks arbitrary: c) (auto simp: Let_def split: option.splits)

lemma clear_pass_dom: "dom (storage (clear_pass c ks)) = dom (storage c) - set ks"
  by (induction ks arbitrary: c) (auto simp: Let_def split: option.splits)

lemma compact_loop_expired [simp]: "expired (compact_loop c s t) = expired c"
  by (induction t arbitrary: c) (auto simp: Let_def split: option.splits)

lemma compact_expired [simp]: "expired (compact c ks) = expired c"
  by (simp add: compact_def split: prod.splits)

section \<open>The marks of the public operations\<close>

lemma Has_snd [simp]: "snd (Has c key now) = c"
  by (simp add: Has_def split: option.split)

lemma Get_expired_mono: "expired c \<subseteq> expired (snd (Get c key n1 n2))"
  by (auto simp: Get_def split: option.splits)

lemma Delete_expired [simp]: "expired (Delete c key) = expired c"
  by (simp add: Delete_def split: option.split)

lemma Put_expired: "expired c - {key} \<subseteq> expired (snd (Put c key d n))"
  by (auto simp: Put_def Let_def)

lemma PutWithTTL_expired: "expired c - {key} \<subseteq> expired (snd (PutWithTTL c key d t n1 n2))"
  by (auto simp: PutWithTTL_def Let_def)

lemma GetOrNew_snd:
  "snd (GetOrNew c key cb n1 n2 n3) = snd (Get c key n1 n2) \<or>
   (\<exists>d. snd (GetOrNew c key cb n1 n2 n3) = snd (Put (snd (Get c key n1 n2)) key d n3))"
  by (cases "Get c key n1 n2"; cases "fst (Get c key n1 n2)"; cases "cb key")
     (auto simp: GetOrNew_def case_prod_beta)

lemma GetOrNewWithTTL_snd:
  "snd (GetOrNewWithTTL c key t cb n1 n2 n3 n4) = snd (Get c key n1 n2) \<or>
   (\<exists>d. snd (GetOrNewWithTTL c key t cb n1 n2 n3 n4) =
          snd (PutWithTTL (snd (Get c key n1 n2)) key d t n3 n4))"
  by (cases "Get c key n1 n2"; cases "fst (Get c key n1 n2)"; cases "cb key")
     (auto simp: GetOrNewWithTTL_def case_prod_beta)

lemma GetOrNew_expired: "expired c - {key} \<subseteq> expired (snd (GetOrNew c key cb n1 n2 n3))"
proof -
  have g: "expired c \<subseteq> expired (snd (Get c key n1 n2))"
    by (rule Get_expired_mono)
  from GetOrNew_snd [of c key cb n1 n2 n3] show ?thesis
  proof
    assume "snd (GetOrNew c key cb n1 n2 n3) = snd (Get c key n1 n2)"
    with g show ?thesis by auto
  next
    assume "\<exists>d. snd (GetOrNew c key cb n1 n2 n3) = snd (Put (snd (Get c key n1 n2)) key d n3)"
    then obtain d where
      "snd (GetOrNew c key cb n1 n2 n3) = snd (Put (snd (Get c key n1 n2)) key d n3)" ..
    with g Put_expired [of "snd (Get c key n1 n2)" key d n3] show ?thesis by auto
  qed
qed

lemma GetOrNewWithTTL_expired:
  "expired c - {key} \<subseteq> expired (snd (GetOrNewWithTTL c key t cb n1 n2 n3 n4))"
proof -
  have g: "expired c \<subseteq> expired (snd (Get c key n1 n2))"
    by (rule Get_expired_mono)
  from GetOrNewWithTTL_snd [of c key t cb n1 n2 n3 n4] show ?thesis
  proof
    assume "snd (GetOrNewWithTTL c key t cb n1 n2 n3 n4) = snd (Get c key n1 n2)"
    with g show ?thesis by auto
  next
    assume "\<exists>d. snd (GetOrNewWithTTL c key t cb n1 n2 n3 n4) =
                 snd (PutWithTTL (snd (Get c key n1 n2)) key d t n3 n4)"
    then obtain d where
      "snd (GetOrNewWithTTL c key t cb n1 n2 n3 n4) =
       snd (PutWithTTL (snd (Get c key n1 n2)) key d t n3 n4)" ..
    with g PutWithTTL_expired [of "snd (Get c key n1 n2)" key d t n3 n4] show ?thesis by auto
  qed
qed


section \<open>Marked keys stay stored\<close>

text \<open>
  Each operation keeps the marked keys among the stored ones, from any state; the
  three restricted operations do so under the condition of \<open>keeps_marked\<close>.
\<close>

lemma marks_stored_Get: "marks_stored c \<Longrightarrow> marks_stored (snd (Get c key n1 n2))"
  by (auto simp: marks_stored_def Get_def split: option.splits)

lemma marks_stored_Put: "marks_stored c \<Longrightarrow> marks_stored (snd (Put c key d n))"
  by (auto simp: marks_stored_def Put_def Let_def)

lemma marks_stored_PutWithTTL: "marks_stored c \<Longrightarrow> marks_stored (snd (PutWithTTL c key d t n1 n2))"
  by (auto simp: marks_stored_def PutWithTTL_def Let_def)

lemma marks_stored_GetOrNew: "marks_stored c \<Longrightarrow> marks_stored (snd (GetOrNew c key cb n1 n2 n3))"
  using GetOrNew_snd [of c key cb n1 n2 n3] marks_stored_Get marks_stored_Put by metis

lemma marks_stored_GetOrNewWithTTL:
  "marks_stored c \<Longrightarrow> marks_stored (snd (GetOrNewWithTTL c key t cb n1 n2 n3 n4))"
  using GetOrNewWithTTL_snd [of c key t cb n1 n2 n3 n4] marks_stored_Get marks_stored_PutWithTTL
  by metis

lemma marks_stored_scanExpired: "marks_stored c \<Longrightarrow> marks_stored (scanExpired_pass c now ks)"
  using scanExpired_pass_expired_sub [of c now ks] by (auto simp: marks_stored_def)

lemma marks_stored_clear: "marks_stored c \<Longrightarrow> marks_stored (clear_pass c ks)"
  by (auto simp: marks_stored_def clear_pass_expired clear_pass_dom)

lemma marks_stored_Get_mark:
  "marks_stored c \<Longrightarrow> key \<in> dom (storage c) \<Longrightarrow> marks_stored (Get_mark c key)"
  by (auto simp: marks_stored_def Get_mark_def)

lemma marks_stored_Get_touch: "marks_stored c \<Longrightarrow> marks_stored (Get_touch c key n)"
  by (auto simp: marks_stored_def Get_touch_def split: option.splits)

lemma marks_stored_Put_store: "marks_stored c \<Longrightarrow> marks_stored (Put_store c key d n)"
  by (auto simp: marks_stored_def Put_store_def)

lemma marks_stored_PutWithTTL_store:
  "marks_stored c \<Longrightarrow> marks_stored (PutWithTTL_store c key d t n1 n2)"
  by (auto simp: marks_stored_def PutWithTTL_store_def)

lemma marks_stored_Put_count: "marks_stored c \<Longrightarrow> marks_stored (snd (Put_count c d))"
  by (simp add: marks_stored_def Put_count_def Let_def)

lemma marks_stored_Delete:
  "marks_stored c \<Longrightarrow> key \<notin> expired c \<Longrightarrow> marks_stored (Delete c key)"
  by (auto simp: marks_stored_def Delete_def split: option.splits)

lemma marks_stored_compact_loop:
  assumes "marks_stored c"
    and "(dom (storage c) - dom (storage (compact_loop c s t))) \<inter> expired c = {}"
  shows "marks_stored (compact_loop c s t)"
  using assms unfolding marks_stored_def compact_loop_expired by blast

lemma marks_stored_compact:
  assumes "marks_stored c"
    and "(dom (storage c) - dom (storage (compact c ks))) \<inter> expired c = {}"
  shows "marks_stored (compact c ks)"
  using assms unfolding marks_stored_def compact_expired by blast

lemma marks_stored_exec: "marks_stored c \<Longrightarrow> keeps_marked c x \<Longrightarrow> marks_stored (exec c x)"
  by (cases x)
     (simp_all add: marks_stored_Get marks_stored_Put marks_stored_PutWithTTL marks_stored_GetOrNew
        marks_stored_GetOrNewWithTTL marks_stored_scanExpired marks_stored_clear
        marks_stored_Get_mark marks_stored_Get_touch marks_stored_Put_store
        marks_stored_PutWithTTL_store marks_stored_Put_count marks_stored_Delete
        marks_stored_compact_loop marks_stored_compact)

lemma marks_stored_run:
  "marks_stored c \<Longrightarrow> safe_run c ops \<Longrightarrow> marks_stored (run c ops)"
  unfolding run_def by (induction ops arbitrary: c) (simp_all add: marks_stored_exec)

text \<open>The sections of a put, one after the other, are the put.\<close>

lemma Put_sections:
  "Put c key d now =
     (if int (length d) \<ge> sizeLimit c then (False, c) else Put_count (Put_store c key d now) d)"
  by (simp add: Put_def Put_store_def Put_count_def Let_def)

lemma PutWithTTL_sections:
  "PutWithTTL c key d t now1 now2 =
     (if int (length d) \<ge> sizeLimit c then (False, c)
      else Put_count (PutWithTTL_store c key d t now1 now2) d)"
  by (simp add: PutWithTTL_def PutWithTTL_store_def Put_count_def Let_def)

text \<open>
  The sections of \<open>Get\<close>, one after the other, are \<open>Get\<close>: a miss changes nothing, an
  expired entry is marked, any other entry is touched.
\<close>

lemma Get_sections:
  "snd (Get c key now1 now2) =
     (if stale c now1 key then Get_mark c key else Get_touch c key now2)"
  by (simp add: Get_def Get_mark_def Get_touch_def stale_def split: option.split)

section \<open>The size counter\<close>

text \<open>
  What an accepted put on a stored key does to the counter and to the stored total:
  the counter grows by the new length, the total by the difference of the lengths.
\<close>

lemma Put_overwrite_drift:
  assumes fin: "finite (dom (storage c))" and old: "storage c key = Some i"
    and fit: "int (length d) < sizeLimit c"
  shows "size_counter (snd (Put c key d now)) = size_counter c + int (length d) \<and>
         storage_bytes (snd (Put c key d now)) = storage_bytes c + int (length d) - int (length (data i))"
proof -
  let ?m = "(storage c)(key \<mapsto> \<lparr>data = d, ttl = 0, lu = now\<rparr>)"
  have st: "storage (snd (Put c key d now)) = ?m"
    and sz: "size_counter (snd (Put c key d now)) = size_counter c + int (length d)"
    using fit by (simp_all add: Put_def Let_def)
  have mem: "key \<in> dom (storage c)" using old by auto
  then have dm: "dom ?m = dom (storage c)" by auto
  have "storage_bytes (snd (Put c key d now)) =
        (\<Sum>k \<in> dom (storage c). int (length (data (the (?m k)))))"
    by (simp only: storage_bytes_def st dm)
  also have "\<dots> = int (length d) +
        (\<Sum>k \<in> dom (storage c) - {key}. int (length (data (the (?m k)))))"
    using fin mem by (subst sum.remove [of _ key]) simp_all
  also have "(\<Sum>k \<in> dom (storage c) - {key}. int (length (data (the (?m k))))) =
        (\<Sum>k \<in> dom (storage c) - {key}. int (length (data (the (storage c k)))))"
    by (rule sum.cong) simp_all
  finally have a: "storage_bytes (snd (Put c key d now)) = int (length d) +
        (\<Sum>k \<in> dom (storage c) - {key}. int (length (data (the (storage c k)))))" .
  have b: "storage_bytes c = int (length (data i)) +
        (\<Sum>k \<in> dom (storage c) - {key}. int (length (data (the (storage c k)))))"
    unfolding storage_bytes_def using fin mem old by (subst sum.remove [of _ key]) simp_all
  show ?thesis using a b sz by simp
qed

text \<open>What \<open>Delete\<close> does to a stored key, to the counter and to the stored total.\<close>

lemma Delete_present:
  assumes "storage c k = Some i"
  shows "storage (Delete c k) = (storage c)(k := None)"
    and "size_counter (Delete c k) = size_counter c - int (length (data i))"
    and "sizeLimit (Delete c k) = sizeLimit c"
  using assms by (simp_all add: Delete_def)

lemma storage_bytes_Delete:
  assumes fin: "finite (dom (storage c))" and i: "storage c k = Some i"
  shows "storage_bytes (Delete c k) = storage_bytes c - int (length (data i))"
proof -
  have mem: "k \<in> dom (storage c)" using i by auto
  have dm: "dom (storage (Delete c k)) = dom (storage c) - {k}"
    by (simp add: Delete_present(1) [OF i])
  have "storage_bytes (Delete c k) =
        (\<Sum>x \<in> dom (storage c) - {k}. int (length (data (the (((storage c)(k := None)) x)))))"
    unfolding storage_bytes_def Delete_present(1) [OF i] by simp
  also have "\<dots> = (\<Sum>x \<in> dom (storage c) - {k}. int (length (data (the (storage c x)))))"
    by (rule sum.cong) simp_all
  finally have a: "storage_bytes (Delete c k) =
        (\<Sum>x \<in> dom (storage c) - {k}. int (length (data (the (storage c x)))))" .
  have b: "storage_bytes c = int (length (data i)) +
        (\<Sum>x \<in> dom (storage c) - {k}. int (length (data (the (storage c x)))))"
    unfolding storage_bytes_def using fin mem i by (subst sum.remove [of _ k]) simp_all
  show ?thesis using a b by simp
qed

lemma storage_bytes_single:
  assumes "dom (storage c) = {key}" and "storage c key = Some it"
  shows "storage_bytes c = int (length (data it))"
  using assms by (simp add: storage_bytes_def)

text \<open>
  Claim C1. In every reachable state the size counter is the sum of \<open>len(data)\<close> over
  the entries of the storage map, and a put that overwrites an entry changes the
  counter by the difference of the two lengths. The code adds the new length and
  never subtracts the old one: after two puts of one byte under the same key, on a
  new cache, the counter is 2 and the storage holds 1 byte.
\<close>

theorem Put_overwrite_size_counter:
  "size_counter (run (New []) [OpPut ''a'' [1] 10, OpPut ''a'' [1] 20]) = 2 \<and>
   storage_bytes (run (New []) [OpPut ''a'' [1] 10, OpPut ''a'' [1] 20]) = 1"
  by (simp add: run_def New_def Put_def defaultSizeLimit_def storage_bytes_def Let_def)

section \<open>Compaction\<close>

lemma UnixNano_in_range:
  assumes "unixEpoch - 2 ^ 63 \<le> t" and "t < unixEpoch + 2 ^ 63"
  shows "UnixNano t = t - unixEpoch"
proof -
  have "- (2 ^ 63) \<le> t - unixEpoch" and "t - unixEpoch < 2 ^ 63"
    using assms by simp_all
  then have "signed_take_bit 63 (t - unixEpoch) = t - unixEpoch"
    by (simp add: signed_take_bit_int_eq_self)
  then show ?thesis unfolding UnixNano_def by (simp only: signed_of_int) simp
qed

lemma insort_key_map:
  "insort_key (\<lambda>x. x) (f a) (map f xs) = map f (insort_key f a xs)"
  by (induction xs) simp_all

lemma sort_map_sort_key: "sort (map f xs) = map f (sort_key f xs)"
  by (induction xs) (simp_all add: insort_key_map)

lemma snapshot_keep:
  "n \<notin> lu_key c ` set ks \<Longrightarrow> fst (snapshot c ks s t) n = s n"
proof (induction ks arbitrary: s t)
  case Nil
  show ?case by simp
next
  case (Cons key ks)
  from Cons.prems have n1: "n \<noteq> lu_key c key" and n2: "n \<notin> lu_key c ` set ks" by auto
  show ?case
  proof (cases "storage c key")
    case None
    then show ?thesis using Cons.IH [OF n2] by simp
  next
    case (Some i)
    then have "fst (snapshot c (key # ks) s t) n =
               fst (snapshot c ks (s(UnixNano (lu i) \<mapsto> key)) (t @ [UnixNano (lu i)])) n"
      by (simp add: Let_def)
    also have "\<dots> = (s(UnixNano (lu i) \<mapsto> key)) n"
      by (rule Cons.IH [OF n2])
    also have "\<dots> = s n"
      using n1 Some by (simp add: lu_key_def)
    finally show ?thesis .
  qed
qed

lemma snapshot_table:
  assumes "set ks \<subseteq> dom (storage c)" and "distinct ks" and "inj_on (lu_key c) (set ks)"
    and "k \<in> set ks"
  shows "fst (snapshot c ks s t) (lu_key c k) = Some k"
  using assms
proof (induction ks arbitrary: s t)
  case Nil
  then show ?case by simp
next
  case (Cons key ks)
  from Cons.prems(1) obtain i where i: "storage c key = Some i" by auto
  have sub: "set ks \<subseteq> dom (storage c)" and dis: "distinct ks" and inj: "inj_on (lu_key c) (set ks)"
    and new: "key \<notin> set ks"
    using Cons.prems by (auto simp: inj_on_def)
  have step: "fst (snapshot c (key # ks) s t) =
              fst (snapshot c ks (s(lu_key c key \<mapsto> key)) (t @ [lu_key c key]))"
    using i by (simp add: Let_def lu_key_def)
  show ?case
  proof (cases "k = key")
    case True
    have "lu_key c key \<notin> lu_key c ` set ks"
      using Cons.prems(3) new by (auto simp: inj_on_def)
    then show ?thesis unfolding step True by (simp add: snapshot_keep)
  next
    case False
    with Cons.prems(4) have "k \<in> set ks" by simp
    then show ?thesis unfolding step by (rule Cons.IH [OF sub dis inj])
  qed
qed

lemma snapshot_slice:
  "set ks \<subseteq> dom (storage c) \<Longrightarrow> snd (snapshot c ks s t) = t @ map (lu_key c) ks"
proof (induction ks arbitrary: s t)
  case Nil
  show ?case by simp
next
  case (Cons key ks)
  from Cons.prems obtain i where i: "storage c key = Some i" by auto
  from Cons.prems have sub: "set ks \<subseteq> dom (storage c)" by simp
  show ?case using i Cons.IH [OF sub] by (simp add: Let_def lu_key_def)
qed

lemma compact_loop_evict_until:
  assumes "distinct es" and "set es \<subseteq> dom (storage c)" and "\<forall>k \<in> set es. s (f k) = Some k"
  shows "compact_loop c s (map f es) = evict_until c es"
  using assms
proof (induction es arbitrary: c)
  case Nil
  show ?case by simp
next
  case (Cons k es)
  from Cons.prems(2) obtain i where i: "storage c k = Some i" by auto
  have sk: "s (f k) = Some k" using Cons.prems(3) by simp
  let ?c1 = "c\<lparr>storage := (storage c)(k := None),
               size_counter := size_counter c - int (length (data i))\<rparr>"
  have d: "Delete c k = ?c1" using i by (simp add: Delete_def)
  have sub: "set es \<subseteq> dom (storage ?c1)" using Cons.prems(1,2) by auto
  have ih: "compact_loop ?c1 s (map f es) = evict_until ?c1 es"
    using Cons.prems(1,3) by (intro Cons.IH [OF _ sub]) simp_all
  show ?case using i sk d ih by (simp add: Let_def)
qed

lemma compact_sorted_by_lu_key:
  assumes "keys_of (storage c) ks" and "inj_on (lu_key c) (dom (storage c))"
  shows "compact c ks = evict_until c (sort_key (lu_key c) ks)"
proof -
  have sub: "set ks \<subseteq> dom (storage c)" and dis: "distinct ks" and inj: "inj_on (lu_key c) (set ks)"
    using assms by (simp_all add: keys_of_def)
  obtain s t where st: "snapshot c ks Map.empty [] = (s, t)" by (cases "snapshot c ks Map.empty []")
  have t: "t = map (lu_key c) ks"
    using snapshot_slice [OF sub, of Map.empty "[]"] st by simp
  have s: "\<forall>k \<in> set (sort_key (lu_key c) ks). s (lu_key c k) = Some k"
    using snapshot_table [OF sub dis inj, of _ Map.empty "[]"] st by simp
  have "compact c ks = compact_loop c s (map (lu_key c) (sort_key (lu_key c) ks))"
    using st t by (simp add: compact_def sort_map_sort_key)
  also have "\<dots> = evict_until c (sort_key (lu_key c) ks)"
    using dis sub s by (intro compact_loop_evict_until) simp_all
  finally show ?thesis .
qed

lemma insort_key_shift:
  assumes "\<forall>y \<in> set (x # xs). f y = g y - (a :: int)"
  shows "insort_key f x xs = insort_key g x xs"
  using assms by (induction xs) simp_all

lemma sort_key_shift:
  assumes "\<forall>y \<in> set xs. f y = g y - (a :: int)"
  shows "sort_key f xs = sort_key g xs"
  using assms
proof (induction xs)
  case Nil
  show ?case by simp
next
  case (Cons x xs)
  then have ih: "sort_key f xs = sort_key g xs" by simp
  have "\<forall>y \<in> set (x # sort_key g xs). f y = g y - a"
    using Cons.prems by simp
  then have "insort_key f x (sort_key g xs) = insort_key g x (sort_key g xs)"
    by (rule insort_key_shift)
  then show ?case using ih by simp
qed

lemma lu_key_in_range:
  assumes "lu_in_range c ks" and "k \<in> set ks" and "set ks \<subseteq> dom (storage c)"
  shows "lu_key c k = lu_of c k - unixEpoch"
proof -
  from assms(2,3) obtain i where i: "storage c k = Some i" by auto
  have "unixEpoch - 2 ^ 63 \<le> lu_of c k \<and> lu_of c k < unixEpoch + 2 ^ 63"
    using assms(1,2) by (simp add: lu_in_range_def list_all_iff)
  then have "UnixNano (lu i) = lu i - unixEpoch"
    using i by (intro UnixNano_in_range) (simp_all add: lu_of_def)
  then show ?thesis using i by (simp add: lu_key_def lu_of_def)
qed

text \<open>
  When the \<open>lu\<close> of the entries are pairwise different and within the range of
  \<open>UnixNano\<close>, a compaction pass is the pass of the specification, whatever the order
  in which the map yields its keys: it removes the entries from the least recently
  used on, and stops after the first removal that leaves the counter below the limit.
\<close>

lemma compact_refines_spec:
  assumes keys: "keys_of (storage c) ks" and inj: "inj_on (lu_of c) (dom (storage c))"
    and range: "lu_in_range c ks"
  shows "compact c ks = spec_compact c ks"
proof -
  have sub: "set ks \<subseteq> dom (storage c)" and dom: "dom (storage c) = set ks"
    using keys by (simp_all add: keys_of_def)
  have shift: "\<forall>k \<in> set ks. lu_key c k = lu_of c k - unixEpoch"
    using lu_key_in_range [OF range _ sub] by blast
  have "inj_on (lu_key c) (set ks)"
  proof (rule inj_onI)
    fix x y assume x: "x \<in> set ks" and y: "y \<in> set ks" and e: "lu_key c x = lu_key c y"
    then have "lu_of c x = lu_of c y" using shift by simp
    then show "x = y" using inj x y dom by (simp add: inj_on_def)
  qed
  then have "compact c ks = evict_until c (sort_key (lu_key c) ks)"
    using keys dom by (intro compact_sorted_by_lu_key) simp_all
  also have "sort_key (lu_key c) ks = sort_key (lu_of c) ks"
    using shift by (rule sort_key_shift)
  finally show ?thesis by (simp add: spec_compact_def)
qed

text \<open>
  The test \<open>TestPut_compact\<close>: the first put starts no compaction and leaves a counter
  of 19; the second starts one, which evicts \<open>3\<close> and \<open>2\<close> and leaves a counter of 16
  and the entries \<open>1\<close>, \<open>5\<close> and \<open>6\<close>. On this state the code is the compaction of the
  specification.
\<close>

lemma cache_five_fields:
  "storage cache_five =
     [''1'' \<mapsto> \<lparr>data = [49, 50, 51, 52, 53], ttl = 0, lu = 63000000009000000000\<rparr>,
      ''2'' \<mapsto> \<lparr>data = [49, 50, 51, 52, 53], ttl = 0, lu = 63000000008000000000\<rparr>,
      ''3'' \<mapsto> \<lparr>data = [49, 50, 51, 52, 53], ttl = 0, lu = 63000000007000000000\<rparr>,
      ''5'' \<mapsto> \<lparr>data = [49, 50, 51, 52], ttl = 0, lu = 63000000010000000000\<rparr>]"
  "size_counter cache_five = 19" "sizeLimit cache_five = 20"
  "fst (Put cache_three ''5'' [49, 50, 51, 52] 63000000010000000000) = False"
  by (simp_all add: cache_five_def cache_three_def Put_def Let_def New_def)

lemma cache_six_fields:
  "storage cache_six =
     [''1'' \<mapsto> \<lparr>data = [49, 50, 51, 52, 53], ttl = 0, lu = 63000000009000000000\<rparr>,
      ''2'' \<mapsto> \<lparr>data = [49, 50, 51, 52, 53], ttl = 0, lu = 63000000008000000000\<rparr>,
      ''3'' \<mapsto> \<lparr>data = [49, 50, 51, 52, 53], ttl = 0, lu = 63000000007000000000\<rparr>,
      ''5'' \<mapsto> \<lparr>data = [49, 50, 51, 52], ttl = 0, lu = 63000000010000000000\<rparr>,
      ''6'' \<mapsto> \<lparr>data = [49, 50, 51, 52, 53, 54, 55], ttl = 0, lu = 63000000010050000000\<rparr>]"
  "size_counter cache_six = 26" "sizeLimit cache_six = 20"
  "fst (Put cache_five ''6'' [49, 50, 51, 52, 53, 54, 55] 63000000010050000000) = True"
  by (simp_all add: cache_six_def cache_five_fields Put_def Let_def)

lemma TestPut_compact:
  "size_counter (compact cache_six [''6'', ''2'', ''5'', ''1'', ''3'']) = 16 \<and>
   dom (storage (compact cache_six [''6'', ''2'', ''5'', ''1'', ''3''])) = {''1'', ''5'', ''6''}"
  by (auto simp: compact_def cache_six_fields UnixNano_def unixEpoch_def)

lemma compact_refines_spec_example:
  "compact cache_six [''6'', ''2'', ''5'', ''1'', ''3''] =
   spec_compact cache_six [''6'', ''2'', ''5'', ''1'', ''3'']"
proof (rule compact_refines_spec)
  show "keys_of (storage cache_six) [''6'', ''2'', ''5'', ''1'', ''3'']"
    by (auto simp: keys_of_def cache_six_fields)
  show "inj_on (lu_of cache_six) (dom (storage cache_six))"
    by (auto simp: inj_on_def lu_of_def cache_six_fields split: if_splits)
  show "lu_in_range cache_six [''6'', ''2'', ''5'', ''1'', ''3'']"
    by (simp add: lu_in_range_def lu_of_def cache_six_fields unixEpoch_def)
qed

lemma compact_loop_storage_cases:
  "storage (compact_loop c s t) k = None \<or> storage (compact_loop c s t) k = storage c k"
proof (induction t arbitrary: c)
  case Nil
  show ?case by simp
next
  case (Cons skey t)
  let ?key = "case s skey of None \<Rightarrow> [] | Some k \<Rightarrow> k"
  show ?case
  proof (cases "storage c ?key")
    case None
    then show ?thesis using Cons.IH [of c] by simp
  next
    case (Some i)
    let ?c1 = "c\<lparr>storage := (storage c)(?key := None),
                  size_counter := size_counter c - int (length (data i))\<rparr>"
    have c1: "storage ?c1 k = None \<or> storage ?c1 k = storage c k" by simp
    show ?thesis
    proof (cases "size_counter ?c1 < sizeLimit ?c1")
      case True
      then have "compact_loop c s (skey # t) = ?c1" using Some by (simp add: Let_def)
      then show ?thesis using c1 by simp
    next
      case False
      then have "compact_loop c s (skey # t) = compact_loop ?c1 s t"
        using Some by (simp add: Let_def)
      then show ?thesis using c1 Cons.IH [of ?c1] by auto
    qed
  qed
qed

lemma compact_storage_cases:
  "storage (compact c ks) k = None \<or> storage (compact c ks) k = storage c k"
  by (simp add: compact_def compact_loop_storage_cases split: prod.splits)

text \<open>
  Evicting in a given order, on a cache whose counter is the stored total: the last
  entry of the order stays when it is smaller than the limit and is not the only one.
\<close>

lemma evict_until_keeps_last:
  assumes "es \<noteq> []" and "distinct (es @ [key])" and "set (es @ [key]) = dom (storage c)"
    and "size_counter c = storage_bytes c"
    and "storage c key = Some it" and "int (length (data it)) < sizeLimit c"
  shows "storage (evict_until c (es @ [key])) key = Some it"
  using assms
proof (induction es arbitrary: c)
  case Nil
  then show ?case by simp
next
  case (Cons e es)
  have fin: "finite (dom (storage c))"
    using Cons.prems(3) by (metis List.finite_set)
  have ne: "e \<noteq> key" using Cons.prems(2) by auto
  have "e \<in> dom (storage c)" using Cons.prems(3) by auto
  then obtain i where i: "storage c e = Some i" by auto
  let ?c1 = "Delete c e"
  have st: "storage ?c1 = (storage c)(e := None)"
    and sz: "size_counter ?c1 = size_counter c - int (length (data i))"
    and lim: "sizeLimit ?c1 = sizeLimit c"
    using Delete_present [OF i] by simp_all
  have key1: "storage ?c1 key = Some it"
    using st ne Cons.prems(5) by simp
  have exact1: "size_counter ?c1 = storage_bytes ?c1"
    using sz storage_bytes_Delete [OF fin i] Cons.prems(4) by simp
  have dom1: "set (es @ [key]) = dom (storage ?c1)"
    using st Cons.prems(2,3) by auto
  show ?case
  proof (cases "size_counter ?c1 < sizeLimit ?c1")
    case True
    then show ?thesis using key1 by (simp add: Let_def)
  next
    case False
    have "es \<noteq> []"
    proof
      assume "es = []"
      then have "dom (storage ?c1) = {key}" using dom1 by simp
      then have "storage_bytes ?c1 = int (length (data it))"
        using key1 by (rule storage_bytes_single)
      then show False using False exact1 lim Cons.prems(6) by simp
    qed
    moreover have "distinct (es @ [key])" using Cons.prems(2) by simp
    ultimately have "storage (evict_until ?c1 (es @ [key])) key = Some it"
      using dom1 exact1 key1 lim Cons.prems(6) by (intro Cons.IH) simp_all
    then show ?thesis using False by (simp add: Let_def)
  qed
qed

lemma sorted_map_le_last:
  "sorted (map f xs) \<Longrightarrow> x \<in> set xs \<Longrightarrow> f x \<le> f (last xs)"
  by (induction xs) auto

text \<open>
  A compaction pass on a cache whose counter is the stored total and above the limit,
  with pairwise different \<open>lu\<close> inside the range of \<open>UnixNano\<close>: the entry with the
  newest \<open>lu\<close> stays when it is smaller than the limit.
\<close>

lemma compact_keeps_newest:
  assumes en: "exact_and_newest c key ks"
    and over: "sizeLimit c < size_counter c"
    and it: "storage c key = Some it" and fit: "int (length (data it)) < sizeLimit c"
  shows "storage (compact c ks) key = Some it"
proof -
  have keys: "keys_of (storage c) ks" and exact: "size_counter c = storage_bytes c"
    and inj: "inj_on (lu_of c) (dom (storage c))" and range: "lu_in_range c ks"
    using en by (simp_all add: exact_and_newest_def)
  have newest: "\<forall>k \<in> dom (storage c) - {key}. lu_of c k < lu it"
    using en it by (simp add: exact_and_newest_def lu_of_def)
  let ?xs = "sort_key (lu_of c) ks"
  have dom: "dom (storage c) = set ks" and dis: "distinct ks"
    using keys by (simp_all add: keys_of_def)
  have mem: "key \<in> set ?xs" using it dom by auto
  have nonempty: "?xs \<noteq> []"
  proof
    assume "?xs = []"
    then have "set ?xs = {}" by simp
    with mem show False by simp
  qed
  have lukey: "lu_of c key = lu it" using it by (simp add: lu_of_def)
  have last: "last ?xs = key"
  proof (rule ccontr)
    assume n: "last ?xs \<noteq> key"
    have "last ?xs \<in> set ?xs" using nonempty by (rule last_in_set)
    then have "last ?xs \<in> dom (storage c) - {key}" using n dom by simp
    then have "lu_of c (last ?xs) < lu it" using newest by blast
    moreover have "lu_of c key \<le> lu_of c (last ?xs)"
      using mem by (intro sorted_map_le_last) simp_all
    ultimately show False using lukey by simp
  qed
  have split: "?xs = butlast ?xs @ [key]"
    using nonempty last by (metis append_butlast_last_id)
  have "butlast ?xs \<noteq> []"
  proof
    assume "butlast ?xs = []"
    then have "?xs = [key]" using split by simp
    then have "set ?xs = {key}" by simp
    then have "dom (storage c) = {key}" using dom by simp
    then have "storage_bytes c = int (length (data it))"
      using it by (rule storage_bytes_single)
    then show False using exact over fit by simp
  qed
  moreover have "distinct (butlast ?xs @ [key])"
    using split dis by (metis distinct_sort)
  moreover have "set (butlast ?xs @ [key]) = dom (storage c)"
    using split dom by (metis set_sort)
  ultimately have "storage (evict_until c (butlast ?xs @ [key])) key = Some it"
    using exact it fit by (rule evict_until_keeps_last)
  then have "storage (evict_until c ?xs) key = Some it"
    using split by simp
  then show ?thesis
    using compact_refines_spec [OF keys inj range] by (simp add: spec_compact_def)
qed



lemma cache_tie_fields:
  "storage cache_tie = [''a'' \<mapsto> \<lparr>data = [1], ttl = 0, lu = 63000000000000000005\<rparr>,
                        ''b'' \<mapsto> \<lparr>data = [2], ttl = 0, lu = 63000000000000000005\<rparr>,
                        ''c'' \<mapsto> \<lparr>data = [3], ttl = 0, lu = 63000000000000000007\<rparr>]"
  "size_counter cache_tie = 3" "sizeLimit cache_tie = 2"
  by (simp_all add: cache_tie_def tie_ops_def run_def New_def WithSizeLimit_def Put_def Let_def)

text \<open>
  Claim C2. A compaction pass removes the entries in ascending order of \<open>lu\<close>, every
  entry with an older \<open>lu\<close> before any entry with a newer one, and stops as soon as the
  counter is below the limit. The code keys its table \<open>s\<close> by the timestamp, so of two
  entries with the same \<open>lu\<close> it keeps one out of the pass. In the state after the
  three puts (\<open>a\<close> and \<open>b\<close> with the same \<open>lu\<close>, \<open>c\<close> newer), the pass that the third
  put starts evicts \<open>c\<close> and keeps an older entry: \<open>a\<close> when the map yields \<open>a\<close> before
  \<open>b\<close>, and \<open>b\<close> otherwise.
\<close>

theorem compact_equal_lu_keeps_older_entry:
  "fst (Put (run (New [WithSizeLimit 2]) (butlast tie_ops)) ''c'' [3] 63000000000000000007) \<and>
   keys_of (storage cache_tie) [''a'', ''b'', ''c''] \<and>
   keys_of (storage cache_tie) [''b'', ''a'', ''c''] \<and>
   storage cache_tie ''a'' = Some \<lparr>data = [1], ttl = 0, lu = 63000000000000000005\<rparr> \<and>
   storage cache_tie ''b'' = Some \<lparr>data = [2], ttl = 0, lu = 63000000000000000005\<rparr> \<and>
   storage cache_tie ''c'' = Some \<lparr>data = [3], ttl = 0, lu = 63000000000000000007\<rparr> \<and>
   storage (compact cache_tie [''a'', ''b'', ''c'']) ''a'' = storage cache_tie ''a'' \<and>
   storage (compact cache_tie [''a'', ''b'', ''c'']) ''c'' = None \<and>
   storage (compact cache_tie [''b'', ''a'', ''c'']) ''b'' = storage cache_tie ''b'' \<and>
   storage (compact cache_tie [''b'', ''a'', ''c'']) ''c'' = None"
proof -
  have "fst (Put (run (New [WithSizeLimit 2]) (butlast tie_ops)) ''c'' [3] 63000000000000000007)"
    by (simp add: tie_ops_def run_def New_def WithSizeLimit_def Put_def Let_def)
  moreover have "keys_of (storage cache_tie) [''a'', ''b'', ''c'']"
    and "keys_of (storage cache_tie) [''b'', ''a'', ''c'']"
    by (auto simp: keys_of_def cache_tie_fields)
  moreover have "storage (compact cache_tie [''a'', ''b'', ''c'']) ''a'' = storage cache_tie ''a''"
    and "storage (compact cache_tie [''a'', ''b'', ''c'']) ''c'' = None"
    and "storage (compact cache_tie [''b'', ''a'', ''c'']) ''b'' = storage cache_tie ''b''"
    and "storage (compact cache_tie [''b'', ''a'', ''c'']) ''c'' = None"
    by (simp_all add: compact_def cache_tie_fields UnixNano_def unixEpoch_def)
  ultimately show ?thesis by (simp add: cache_tie_fields)
qed

section \<open>Reading\<close>

text \<open>
  Claim C4. When the entry of \<open>key\<close> has an expiry time and that time is before the
  clock reading, \<open>Get\<close> returns \<open>ErrNotFound\<close>, adds \<open>key\<close> to \<open>expired\<close> and changes
  nothing else: the entry stays in the storage map.
\<close>

theorem Get_expired_marks_key:
  assumes "storage c key = Some i" and "\<not> IsZero (ttl i)" and "Before (ttl i) now1"
  shows "Get c key now1 now2 = (Inl ErrNotFound, c\<lparr>expired := insert key (expired c)\<rparr>) \<and>
         key \<in> expired (snd (Get c key now1 now2)) \<and>
         storage (snd (Get c key now1 now2)) key = Some i"
  using assms by (simp add: Get_def)

theorem Get_expired_marks_key_witness:
  "storage cache_foo ''foo'' = Some \<lparr>data = [16], ttl = 1050, lu = 1000\<rparr> \<and>
   \<not> IsZero (ttl \<lparr>data = [16], ttl = 1050, lu = 1000\<rparr>) \<and>
   Before (ttl \<lparr>data = [16], ttl = 1050, lu = 1000\<rparr>) 2000 \<and>
   Get cache_foo ''foo'' 2000 2001 =
     (Inl ErrNotFound, cache_foo\<lparr>expired := insert ''foo'' (expired cache_foo)\<rparr>)"
proof -
  have h1: "storage cache_foo ''foo'' = Some \<lparr>data = [16], ttl = 1050, lu = 1000\<rparr>"
    by (simp add: cache_foo_def New_def PutWithTTL_def defaultSizeLimit_def Let_def Add_def)
  have h2: "\<not> IsZero (ttl \<lparr>data = [16], ttl = 1050, lu = 1000\<rparr>)"
    by (simp add: IsZero_def)
  have h3: "Before (ttl \<lparr>data = [16], ttl = 1050, lu = 1000\<rparr>) 2000"
    by (simp add: Before_def)
  show ?thesis
    using h1 h2 h3 Get_expired_marks_key [OF h1 h2 h3, of 2001] by simp
qed

section \<open>Writing and reading back\<close>

text \<open>
  A put and the read that follows it. Between the two, the compaction that the put
  started may have run or not. When it has not, the read finds what the put wrote.
\<close>

lemma Put_then_Get_before_compact:
  assumes "int (length d) < sizeLimit c"
  shows "fst (Get (snd (Put c key d now)) key n1 n2) = Inr d"
  using assms by (simp add: Put_def Get_def Let_def IsZero_def)

lemma PutWithTTL_then_Get_before_compact:
  assumes "int (length d) < sizeLimit c" and "0 < t" and "0 \<le> now1"
  shows "(n1 \<le> Add now1 t \<longrightarrow>
            fst (Get (snd (PutWithTTL c key d t now1 now2)) key n1 n2) = Inr d) \<and>
         (Add now1 t < n1 \<longrightarrow>
            fst (Get (snd (PutWithTTL c key d t now1 now2)) key n1 n2) = Inl ErrNotFound)"
  using assms by (simp add: PutWithTTL_def Get_def Let_def IsZero_def Before_def Add_def)

text \<open>
  When it has, the read still finds it if the counter is the stored total and the new
  entry is strictly the most recently used (\<open>exact_and_newest\<close>).
\<close>

lemma Put_then_compact_then_Get:
  assumes fit: "int (length d) < sizeLimit c"
    and started: "fst (Put c key d now)"
    and en: "exact_and_newest (snd (Put c key d now)) key ks"
  shows "fst (Get (compact (snd (Put c key d now)) ks) key n1 n2) = Inr d"
proof -
  let ?c1 = "snd (Put c key d now)"
  let ?it = "\<lparr>data = d, ttl = 0, lu = now\<rparr>"
  have it: "storage ?c1 key = Some ?it" and lim: "sizeLimit ?c1 = sizeLimit c"
    using fit by (simp_all add: Put_def Let_def)
  have over: "sizeLimit ?c1 < size_counter ?c1"
    using started fit by (simp add: Put_def Let_def)
  have "storage (compact ?c1 ks) key = Some ?it"
    using en over it
  proof (rule compact_keeps_newest)
    show "int (length (data ?it)) < sizeLimit ?c1" using fit lim by simp
  qed
  then show ?thesis by (simp add: Get_def IsZero_def)
qed

lemma PutWithTTL_then_compact_then_Get:
  assumes fit: "int (length d) < sizeLimit c" and pos: "0 < t" and clock: "0 \<le> now1"
    and started: "fst (PutWithTTL c key d t now1 now2)"
    and en: "exact_and_newest (snd (PutWithTTL c key d t now1 now2)) key ks"
    and early: "n1 \<le> Add now1 t"
  shows "fst (Get (compact (snd (PutWithTTL c key d t now1 now2)) ks) key n1 n2) = Inr d"
proof -
  let ?c1 = "snd (PutWithTTL c key d t now1 now2)"
  let ?it = "\<lparr>data = d, ttl = Add now1 t, lu = now2\<rparr>"
  have it: "storage ?c1 key = Some ?it" and lim: "sizeLimit ?c1 = sizeLimit c"
    using fit by (simp_all add: PutWithTTL_def Let_def)
  have over: "sizeLimit ?c1 < size_counter ?c1"
    using started fit by (simp add: PutWithTTL_def Let_def)
  have "storage (compact ?c1 ks) key = Some ?it"
    using en over it
  proof (rule compact_keeps_newest)
    show "int (length (data ?it)) < sizeLimit ?c1" using fit lim by simp
  qed
  then show ?thesis using early by (simp add: Get_def IsZero_def Before_def)
qed

text \<open>After the expiry time the entry is not found, whether the compaction evicted it or not.\<close>

lemma PutWithTTL_late_Get_after_compact:
  assumes fit: "int (length d) < sizeLimit c" and pos: "0 < t" and clock: "0 \<le> now1"
    and late: "Add now1 t < n1"
  shows "fst (Get (compact (snd (PutWithTTL c key d t now1 now2)) ks) key n1 n2) = Inl ErrNotFound"
proof -
  let ?c1 = "snd (PutWithTTL c key d t now1 now2)"
  let ?it = "\<lparr>data = d, ttl = Add now1 t, lu = now2\<rparr>"
  have it: "storage ?c1 key = Some ?it"
    using fit by (simp add: PutWithTTL_def Let_def)
  from compact_storage_cases [of ?c1 ks key]
  have "storage (compact ?c1 ks) key = None \<or> storage (compact ?c1 ks) key = Some ?it"
    using it by simp
  then show ?thesis
  proof
    assume "storage (compact ?c1 ks) key = None"
    then show ?thesis by (simp add: Get_def)
  next
    assume "storage (compact ?c1 ks) key = Some ?it"
    then show ?thesis using pos clock late by (simp add: Get_def IsZero_def Before_def Add_def)
  qed
qed

lemma cache_drift_fields:
  "storage cache_drift = [''a'' \<mapsto> \<lparr>data = [1], ttl = 0, lu = 63000000000000002000\<rparr>]"
  "expired cache_drift = {}"
  "size_counter cache_drift = 2" "sizeLimit cache_drift = 2"
  by (simp_all add: cache_drift_def run_def New_def WithSizeLimit_def Put_def Let_def)

lemma cache_drift_put_fields:
  "storage cache_drift_put =
     [''a'' \<mapsto> \<lparr>data = [1], ttl = 0, lu = 63000000000000002000\<rparr>,
      ''foo'' \<mapsto> \<lparr>data = [16], ttl = 0, lu = 63000000000000003000\<rparr>]"
  "size_counter cache_drift_put = 3" "sizeLimit cache_drift_put = 2"
  "fst (Put cache_drift ''foo'' [16] 63000000000000003000)"
  by (simp_all add: cache_drift_put_def cache_drift_fields Put_def Let_def)

lemma cache_drift_putttl_fields:
  "storage cache_drift_putttl =
     [''a'' \<mapsto> \<lparr>data = [1], ttl = 0, lu = 63000000000000002000\<rparr>,
      ''foo'' \<mapsto> \<lparr>data = [16], ttl = 63000000000001003000, lu = 63000000000000003001\<rparr>]"
  "size_counter cache_drift_putttl = 3" "sizeLimit cache_drift_putttl = 2"
  "fst (PutWithTTL cache_drift ''foo'' [16] 1000000 63000000000000003000 63000000000000003001)"
  by (simp_all add: cache_drift_putttl_def cache_drift_fields PutWithTTL_def Let_def Add_def)

text \<open>
  With an exact counter and two entries of the same \<open>lu\<close>, the read after the
  compaction depends on the order in which the map yields its keys.
\<close>

lemma cache_same_clock_fields:
  "storage cache_same_clock =
     [''x'' \<mapsto> \<lparr>data = [1, 2], ttl = 0, lu = 63000000000000001000\<rparr>,
      ''foo'' \<mapsto> \<lparr>data = [3, 4], ttl = 0, lu = 63000000000000001000\<rparr>]"
  "size_counter cache_same_clock = 4" "sizeLimit cache_same_clock = 3"
  "fst (Put cache_one_x ''foo'' [3, 4] 63000000000000001000)"
  by (simp_all add: cache_same_clock_def cache_one_x_def run_def New_def WithSizeLimit_def
      Put_def Let_def)

lemma Put_then_Get_same_clock:
  "size_counter cache_same_clock = storage_bytes cache_same_clock \<and>
   fst (Put cache_one_x ''foo'' [3, 4] 63000000000000001000) \<and>
   keys_of (storage cache_same_clock) [''x'', ''foo''] \<and>
   keys_of (storage cache_same_clock) [''foo'', ''x''] \<and>
   fst (Get (compact cache_same_clock [''x'', ''foo'']) ''foo''
          63000000000000002000 63000000000000002001) = Inl ErrNotFound \<and>
   fst (Get (compact cache_same_clock [''foo'', ''x'']) ''foo''
          63000000000000002000 63000000000000002001) = Inr [3, 4]"
proof -
  have d: "dom (storage cache_same_clock) = {''x'', ''foo''}"
    by (auto simp: cache_same_clock_fields)
  have "size_counter cache_same_clock = storage_bytes cache_same_clock"
    unfolding storage_bytes_def d by (simp add: cache_same_clock_fields)
  moreover have "keys_of (storage cache_same_clock) [''x'', ''foo'']"
    and "keys_of (storage cache_same_clock) [''foo'', ''x'']"
    by (auto simp: keys_of_def d)
  moreover have "storage (compact cache_same_clock [''x'', ''foo'']) ''foo'' = None"
    and "storage (compact cache_same_clock [''foo'', ''x'']) ''foo'' =
         Some \<lparr>data = [3, 4], ttl = 0, lu = 63000000000000001000\<rparr>"
    by (simp_all add: compact_def cache_same_clock_fields UnixNano_def unixEpoch_def)
  ultimately show ?thesis
    by (simp add: Get_def IsZero_def cache_same_clock_fields(4))
qed

text \<open>
  Claim C5. When \<open>len(data) < sizeLimit\<close>, \<open>Put\<close> followed at once by \<open>Get\<close> of the same
  key succeeds and returns exactly the data. The code fails it when the counter is
  above the stored total. On the cache with a size limit of 2 where \<open>a\<close> was put
  twice (counter 2, one byte stored), the put of one byte under \<open>foo\<close> takes the counter
  to 3 and starts a compaction. Before the pass runs, \<open>Get\<close> returns the byte. Once it
  has run, in either order of the map, it has evicted \<open>a\<close>, found the counter at 2 and
  not below the limit, and evicted \<open>foo\<close>: \<open>Get\<close> returns \<open>ErrNotFound\<close>.
\<close>

theorem Put_then_Get_drift:
  "size_counter cache_drift = 2 \<and> storage_bytes cache_drift = 1 \<and>
   int (length [16 :: byte]) < sizeLimit cache_drift \<and>
   fst (Put cache_drift ''foo'' [16] 63000000000000003000) \<and>
   cache_drift_put = snd (Put cache_drift ''foo'' [16] 63000000000000003000) \<and>
   fst (Get cache_drift_put ''foo'' 63000000000000004000 63000000000000004001) = Inr [16] \<and>
   keys_of (storage cache_drift_put) [''a'', ''foo''] \<and>
   keys_of (storage cache_drift_put) [''foo'', ''a''] \<and>
   fst (Get (compact cache_drift_put [''a'', ''foo'']) ''foo''
          63000000000000004000 63000000000000004001) = Inl ErrNotFound \<and>
   fst (Get (compact cache_drift_put [''foo'', ''a'']) ''foo''
          63000000000000004000 63000000000000004001) = Inl ErrNotFound"
proof -
  have "storage_bytes cache_drift = 1"
    by (simp add: storage_bytes_def cache_drift_fields)
  moreover have "keys_of (storage cache_drift_put) [''a'', ''foo'']"
    and "keys_of (storage cache_drift_put) [''foo'', ''a'']"
    by (auto simp: keys_of_def cache_drift_put_fields)
  moreover have "fst (Get cache_drift_put ''foo'' 63000000000000004000 63000000000000004001) = Inr [16]"
    by (simp add: Get_def cache_drift_put_fields IsZero_def)
  moreover have "storage (compact cache_drift_put [''a'', ''foo'']) ''foo'' = None"
    and "storage (compact cache_drift_put [''foo'', ''a'']) ''foo'' = None"
    by (simp_all add: compact_def cache_drift_put_fields UnixNano_def unixEpoch_def)
  ultimately show ?thesis
    by (simp add: Get_def cache_drift_fields cache_drift_put_fields(4) cache_drift_put_def [symmetric])
qed

text \<open>
  Claim C6. When \<open>len(d) < sizeLimit\<close> and \<open>ttl\<close> is positive, after \<open>PutWithTTL\<close> a \<open>Get\<close>
  before the expiry time returns \<open>d\<close> and a \<open>Get\<close> after it returns \<open>ErrNotFound\<close>. The
  second half holds whether a compaction ran or not
  (\<open>PutWithTTL_late_Get_after_compact\<close>). The code fails the first half when the
  counter is above the stored total: on the same cache as for \<open>Put\<close>, the write of
  \<open>foo\<close> with a TTL of one millisecond starts a compaction; a \<open>Get\<close> one microsecond
  after the write returns the byte before the pass runs and \<open>ErrNotFound\<close> once it has
  run, in either order of the map.
\<close>

theorem PutWithTTL_then_Get_drift:
  "size_counter cache_drift = 2 \<and> storage_bytes cache_drift = 1 \<and>
   int (length [16 :: byte]) < sizeLimit cache_drift \<and>
   fst (PutWithTTL cache_drift ''foo'' [16] 1000000 63000000000000003000 63000000000000003001) \<and>
   cache_drift_putttl =
     snd (PutWithTTL cache_drift ''foo'' [16] 1000000 63000000000000003000 63000000000000003001) \<and>
   63000000000000004000 < Add 63000000000000003000 1000000 \<and>
   fst (Get cache_drift_putttl ''foo'' 63000000000000004000 63000000000000004001) = Inr [16] \<and>
   keys_of (storage cache_drift_putttl) [''a'', ''foo''] \<and>
   keys_of (storage cache_drift_putttl) [''foo'', ''a''] \<and>
   fst (Get (compact cache_drift_putttl [''a'', ''foo'']) ''foo''
          63000000000000004000 63000000000000004001) = Inl ErrNotFound \<and>
   fst (Get (compact cache_drift_putttl [''foo'', ''a'']) ''foo''
          63000000000000004000 63000000000000004001) = Inl ErrNotFound"
proof -
  have "storage_bytes cache_drift = 1"
    by (simp add: storage_bytes_def cache_drift_fields)
  moreover have "keys_of (storage cache_drift_putttl) [''a'', ''foo'']"
    and "keys_of (storage cache_drift_putttl) [''foo'', ''a'']"
    by (auto simp: keys_of_def cache_drift_putttl_fields)
  moreover have "fst (Get cache_drift_putttl ''foo'' 63000000000000004000 63000000000000004001) = Inr [16]"
    by (simp add: Get_def cache_drift_putttl_fields IsZero_def Before_def)
  moreover have "storage (compact cache_drift_putttl [''a'', ''foo'']) ''foo'' = None"
    and "storage (compact cache_drift_putttl [''foo'', ''a'']) ''foo'' = None"
    by (simp_all add: compact_def cache_drift_putttl_fields UnixNano_def unixEpoch_def)
  ultimately show ?thesis
    by (simp add: Get_def cache_drift_fields cache_drift_putttl_fields(4)
        cache_drift_putttl_def [symmetric] Add_def)
qed

text \<open>
  Claim C7. When \<open>len(data) \<ge> sizeLimit\<close>, \<open>Put\<close> and \<open>PutWithTTL\<close> return the cache as it
  was (storage map, size counter and \<open>expired\<close> included), start no compaction and
  have no error to report; a following \<open>Get\<close> of the key returns \<open>ErrNotFound\<close> when the
  key was not in the storage before.
\<close>

theorem Put_oversized_noop:
  assumes "sizeLimit c \<le> int (length d)"
  shows "Put c key d now = (False, c) \<and>
         PutWithTTL c key d t now1 now2 = (False, c) \<and>
         (storage c key = None \<longrightarrow>
            fst (Get (snd (Put c key d now)) key n1 n2) = Inl ErrNotFound \<and>
            fst (Get (snd (PutWithTTL c key d t now1 now2)) key n1 n2) = Inl ErrNotFound)"
  using assms by (simp add: Put_def PutWithTTL_def Get_def)

theorem Put_oversized_noop_witness:
  "sizeLimit cache_limit1 \<le> int (length [16, 32 :: byte]) \<and>
   storage cache_limit1 ''foo'' = None \<and>
   Put cache_limit1 ''foo'' [16, 32] 1000 = (False, cache_limit1) \<and>
   PutWithTTL cache_limit1 ''foo'' [16, 32] 50 1000 1001 = (False, cache_limit1) \<and>
   fst (Get (snd (Put cache_limit1 ''foo'' [16, 32] 1000)) ''foo'' 2000 2001) = Inl ErrNotFound \<and>
   fst (Get (snd (PutWithTTL cache_limit1 ''foo'' [16, 32] 50 1000 1001)) ''foo'' 2000 2001)
     = Inl ErrNotFound"
proof -
  have h: "sizeLimit cache_limit1 \<le> int (length [16, 32 :: byte])"
    by (simp add: cache_limit1_def New_def WithSizeLimit_def)
  have a: "storage cache_limit1 ''foo'' = None"
    by (simp add: cache_limit1_def New_def WithSizeLimit_def)
  show ?thesis
    using h a Put_oversized_noop [OF h, of "''foo''" 1000 50 1000 1001 2000 2001] by blast
qed

section \<open>The expired set and the storage\<close>

text \<open>
  Claim C3, as stated: in every reachable state every key of \<open>expired\<close> is a key of the
  storage map. Three runs refute it. First: write \<open>k\<close> with a TTL, read it after expiry
  (which marks it), delete it. Second, with a size limit of 2: the same write and
  read, then two puts, the second of which starts a compaction; the compaction evicts
  \<open>k\<close>. Third, with reads and a clearing pass only: after the same write and read, a
  second \<open>Get\<close> looks \<open>k\<close> up and finds it expired, a clearing pass removes the mark
  and the entry, and the \<open>Get\<close> sets its mark. Each run ends with \<open>k\<close> marked and not
  stored.
\<close>

theorem expired_in_storage_counterexample:
  "''k'' \<in> expired (run (New []) (marked_ops @ [OpDelete ''k''])) \<and>
   storage (run (New []) (marked_ops @ [OpDelete ''k''])) ''k'' = None \<and>
   fst (Put (run (New [WithSizeLimit 2]) (butlast full_ops)) ''b'' [3] 63000000000000004000) \<and>
   keys_of (storage (run (New [WithSizeLimit 2]) full_ops)) [''k'', ''a'', ''b''] \<and>
   ''k'' \<in> expired (run (New [WithSizeLimit 2]) (full_ops @ [OpCompact [''k'', ''a'', ''b'']])) \<and>
   storage (run (New [WithSizeLimit 2]) (full_ops @ [OpCompact [''k'', ''a'', ''b'']])) ''k'' = None \<and>
   stale (run (New []) marked_ops) 63000000000000002500 ''k'' \<and>
   expired (run (New []) marked_ops) = {''k''} \<and>
   ''k'' \<in> expired (run (New []) (marked_ops @ [OpClear [''k''], OpGetMark ''k''])) \<and>
   storage (run (New []) (marked_ops @ [OpClear [''k''], OpGetMark ''k''])) ''k'' = None"
  by (auto simp add: run_def New_def defaultSizeLimit_def WithSizeLimit_def marked_ops_def full_ops_def
        PutWithTTL_def Put_def Get_def Delete_def compact_def keys_of_def Get_mark_def stale_def
        Let_def Add_def IsZero_def Before_def UnixNano_def unixEpoch_def split: if_splits)

text \<open>
  Claim C3, amended: in every state reached from a new cache by a run in which no
  \<open>Delete\<close> removes a marked key, no compaction evicts a marked key and no \<open>Get\<close> marks
  a key whose entry is gone by the time of the mark (\<open>safe_run\<close>), every key of
  \<open>expired\<close> is a key of the storage map. The run may hold every call and pass, and
  every critical section of a call on its own.
\<close>

theorem expired_in_storage_safe_run:
  assumes "list_all is_option options" and "safe_run (New options) ops"
  shows "expired (run (New options) ops) \<subseteq> dom (storage (run (New options) ops))"
proof -
  have "marks_stored (New options)"
    using New_fields [OF assms(1)] by (simp add: marks_stored_def)
  then have "marks_stored (run (New options) ops)"
    using assms(2) by (rule marks_stored_run)
  then show ?thesis by (simp add: marks_stored_def)
qed

lemma safe_ops_states:
  "safe_run (New [WithSizeLimit 3]) safe_ops"
  "expired (run (New [WithSizeLimit 3]) safe_ops) = {''k''}"
  "dom (storage (run (New [WithSizeLimit 3]) safe_ops)) = {''k'', ''b''}"
  by (auto simp add: run_def New_def WithSizeLimit_def safe_ops_def
        PutWithTTL_def Put_def Get_def Delete_def compact_def Get_mark_def
        Let_def Add_def IsZero_def Before_def UnixNano_def unixEpoch_def split: if_splits)

theorem expired_in_storage_safe_run_witness:
  "list_all is_option [WithSizeLimit 3] \<and> safe_run (New [WithSizeLimit 3]) safe_ops \<and>
   expired (run (New [WithSizeLimit 3]) safe_ops) = {''k''} \<and>
   dom (storage (run (New [WithSizeLimit 3]) safe_ops)) = {''k'', ''b''} \<and>
   expired (run (New [WithSizeLimit 3]) safe_ops) \<subseteq> dom (storage (run (New [WithSizeLimit 3]) safe_ops))"
proof -
  have h1: "list_all is_option [WithSizeLimit 3]"
    by (auto simp: is_option_def)
  show ?thesis
    using h1 safe_ops_states expired_in_storage_safe_run [OF h1 safe_ops_states(1)] by blast
qed

section \<open>Has and Delete\<close>

text \<open>
  Claim C9. \<open>Has\<close> returns the cache as it was: storage map, every \<open>lu\<close>, \<open>expired\<close> and
  the size counter. On an entry whose expiry time has passed it answers false and
  does not mark the key, where \<open>Get\<close> adds the key to \<open>expired\<close>.
\<close>

theorem Has_changes_nothing:
  "snd (Has c key now) = c \<and>
   (storage c key = Some i \<and> \<not> IsZero (ttl i) \<and> Before (ttl i) now \<longrightarrow>
      \<not> fst (Has c key now) \<and>
      expired (snd (Has c key now)) = expired c \<and>
      expired (snd (Get c key now now2)) = insert key (expired c))"
  by (auto simp: Has_def Get_def IsZero_def Before_def After_def split: option.splits)

theorem Has_changes_nothing_witness:
  "storage cache_foo ''foo'' = Some \<lparr>data = [16], ttl = 1050, lu = 1000\<rparr> \<and>
   \<not> IsZero (ttl \<lparr>data = [16], ttl = 1050, lu = 1000\<rparr>) \<and>
   Before (ttl \<lparr>data = [16], ttl = 1050, lu = 1000\<rparr>) 2000 \<and>
   snd (Has cache_foo ''foo'' 2000) = cache_foo \<and>
   \<not> fst (Has cache_foo ''foo'' 2000) \<and>
   expired (snd (Has cache_foo ''foo'' 2000)) = {} \<and>
   expired (snd (Get cache_foo ''foo'' 2000 2001)) = {''foo''}"
proof -
  have h1: "storage cache_foo ''foo'' = Some \<lparr>data = [16], ttl = 1050, lu = 1000\<rparr>"
    by (simp add: cache_foo_def New_def PutWithTTL_def defaultSizeLimit_def Let_def Add_def)
  have h2: "\<not> IsZero (ttl \<lparr>data = [16], ttl = 1050, lu = 1000\<rparr>)"
    by (simp add: IsZero_def)
  have h3: "Before (ttl \<lparr>data = [16], ttl = 1050, lu = 1000\<rparr>) 2000"
    by (simp add: Before_def)
  have e: "expired cache_foo = {}"
    by (simp add: cache_foo_def New_def PutWithTTL_def defaultSizeLimit_def Let_def)
  show ?thesis
    using h1 h2 h3 e
      Has_changes_nothing [of cache_foo "''foo''" 2000 "\<lparr>data = [16], ttl = 1050, lu = 1000\<rparr>" 2001]
    by simp
qed

text \<open>
  Claim C10. \<open>Delete\<close> removes the entry of the key from the storage map, subtracts
  its length from the size counter (and does nothing when the key is absent), keeps
  every other entry and keeps \<open>expired\<close> as it is. A mark stays through every
  operation but two: a clearing pass that visits the key, and a put of the same key
  that is not rejected for its size (the get-or-new functions put under their own
  key).
\<close>

theorem Delete_frame:
  "storage (Delete c key) = (storage c)(key := None) \<and>
   size_counter (Delete c key) =
     size_counter c - (case storage c key of None \<Rightarrow> 0 | Some i \<Rightarrow> int (length (data i))) \<and>
   expired (Delete c key) = expired c \<and>
   sizeLimit (Delete c key) = sizeLimit c \<and>
   (storage c key = None \<longrightarrow> Delete c key = c) \<and>
   (key \<in> expired c \<longrightarrow>
      key \<in> expired (snd (Get c k n1 n2)) \<and>
      key \<in> expired (snd (Has c k n1)) \<and>
      key \<in> expired (Delete c k) \<and>
      key \<in> expired (compact c ks) \<and>
      key \<in> expired (scanExpired_pass c n1 ks) \<and>
      (key \<notin> set ks \<longrightarrow> key \<in> expired (clear_pass c ks)) \<and>
      (k \<noteq> key \<longrightarrow>
         key \<in> expired (snd (Put c k d n1)) \<and>
         key \<in> expired (snd (PutWithTTL c k d t n1 n2)) \<and>
         key \<in> expired (snd (GetOrNew c k cb n1 n2 n3)) \<and>
         key \<in> expired (snd (GetOrNewWithTTL c k t cb n1 n2 n3 n4)))) \<and>
   (key \<in> set ks \<longrightarrow> key \<notin> expired (clear_pass c ks)) \<and>
   (int (length d) < sizeLimit c \<longrightarrow>
      key \<notin> expired (snd (Put c key d n1)) \<and>
      key \<notin> expired (snd (PutWithTTL c key d t n1 n2)))"
proof -
  have a: "storage (Delete c key) = (storage c)(key := None)"
    by (auto simp: Delete_def split: option.split)
  have b: "size_counter (Delete c key) =
     size_counter c - (case storage c key of None \<Rightarrow> 0 | Some i \<Rightarrow> int (length (data i)))"
    by (simp add: Delete_def split: option.split)
  have c: "sizeLimit (Delete c key) = sizeLimit c"
    by (simp add: Delete_def split: option.split)
  have d: "storage c key = None \<longrightarrow> Delete c key = c"
    by (simp add: Delete_def)
  have x: "expired (Delete c key) = expired c"
    by simp
  have e: "key \<in> expired c \<longrightarrow>
      key \<in> expired (snd (Get c k n1 n2)) \<and>
      key \<in> expired (snd (Has c k n1)) \<and>
      key \<in> expired (Delete c k) \<and>
      key \<in> expired (compact c ks) \<and>
      key \<in> expired (scanExpired_pass c n1 ks) \<and>
      (key \<notin> set ks \<longrightarrow> key \<in> expired (clear_pass c ks)) \<and>
      (k \<noteq> key \<longrightarrow>
         key \<in> expired (snd (Put c k d n1)) \<and>
         key \<in> expired (snd (PutWithTTL c k d t n1 n2)) \<and>
         key \<in> expired (snd (GetOrNew c k cb n1 n2 n3)) \<and>
         key \<in> expired (snd (GetOrNewWithTTL c k t cb n1 n2 n3 n4)))"
  proof
    assume m: "key \<in> expired c"
    have "key \<in> expired (snd (Get c k n1 n2))"
      using m Get_expired_mono [of c k n1 n2] by blast
    moreover have "key \<in> expired (snd (Has c k n1))"
      using m by simp
    moreover have "key \<in> expired (Delete c k)"
      using m by simp
    moreover have "key \<in> expired (compact c ks)"
      using m by simp
    moreover have "key \<in> expired (scanExpired_pass c n1 ks)"
      using m by (simp add: scanExpired_pass_expired)
    moreover have "key \<notin> set ks \<longrightarrow> key \<in> expired (clear_pass c ks)"
      using m by (simp add: clear_pass_expired)
    moreover have "k \<noteq> key \<longrightarrow>
         key \<in> expired (snd (Put c k d n1)) \<and>
         key \<in> expired (snd (PutWithTTL c k d t n1 n2)) \<and>
         key \<in> expired (snd (GetOrNew c k cb n1 n2 n3)) \<and>
         key \<in> expired (snd (GetOrNewWithTTL c k t cb n1 n2 n3 n4))"
      using m Put_expired [of c k d n1] PutWithTTL_expired [of c k d t n1 n2]
        GetOrNew_expired [of c k cb n1 n2 n3] GetOrNewWithTTL_expired [of c k t cb n1 n2 n3 n4]
      by blast
    ultimately show "key \<in> expired (snd (Get c k n1 n2)) \<and>
      key \<in> expired (snd (Has c k n1)) \<and>
      key \<in> expired (Delete c k) \<and>
      key \<in> expired (compact c ks) \<and>
      key \<in> expired (scanExpired_pass c n1 ks) \<and>
      (key \<notin> set ks \<longrightarrow> key \<in> expired (clear_pass c ks)) \<and>
      (k \<noteq> key \<longrightarrow>
         key \<in> expired (snd (Put c k d n1)) \<and>
         key \<in> expired (snd (PutWithTTL c k d t n1 n2)) \<and>
         key \<in> expired (snd (GetOrNew c k cb n1 n2 n3)) \<and>
         key \<in> expired (snd (GetOrNewWithTTL c k t cb n1 n2 n3 n4)))"
      by (intro conjI)
  qed
  have g: "key \<in> set ks \<longrightarrow> key \<notin> expired (clear_pass c ks)"
    by (simp add: clear_pass_expired)
  have h: "int (length d) < sizeLimit c \<longrightarrow>
      key \<notin> expired (snd (Put c key d n1)) \<and>
      key \<notin> expired (snd (PutWithTTL c key d t n1 n2))"
    by (simp add: Put_def PutWithTTL_def Let_def)
  show ?thesis by (intro conjI) (fact a b c d x e g h)+
qed

theorem Delete_frame_witness:
  "''k'' \<in> expired cache_marked \<and>
   storage (Delete cache_marked ''k'') ''k'' = None \<and>
   ''k'' \<in> expired (Delete cache_marked ''k'') \<and>
   ''a'' \<noteq> ''k'' \<and>
   ''k'' \<in> expired (snd (Put (Delete cache_marked ''k'') ''a'' [7] 5)) \<and>
   ''k'' \<in> set [''k''] \<and>
   ''k'' \<notin> expired (clear_pass (Delete cache_marked ''k'') [''k'']) \<and>
   int (length [7 :: byte]) < sizeLimit (Delete cache_marked ''k'') \<and>
   ''k'' \<notin> expired (snd (Put (Delete cache_marked ''k'') ''k'' [7] 5))"
proof -
  have m: "''k'' \<in> expired cache_marked"
    by (simp add: cache_marked_def run_def New_def marked_ops_def defaultSizeLimit_def
        PutWithTTL_def Get_def Let_def Add_def IsZero_def Before_def)
  have l: "sizeLimit cache_marked = defaultSizeLimit"
    by (simp add: cache_marked_def run_def New_def marked_ops_def defaultSizeLimit_def
        PutWithTTL_def Get_def Let_def Add_def IsZero_def Before_def)
  note d1 = Delete_frame [where c = cache_marked and key = "''k''" and k = "''k''"]
  have m': "''k'' \<in> expired (Delete cache_marked ''k'')"
    using m d1 by blast
  have s: "int (length [7 :: byte]) < sizeLimit (Delete cache_marked ''k'')"
    using d1 l by (simp add: defaultSizeLimit_def)
  have n: "''a'' \<noteq> ''k''" by simp
  have i: "''k'' \<in> set [''k'']" by simp
  note d2 = Delete_frame [where c = "Delete cache_marked ''k''" and key = "''k''" and k = "''a''"
      and ks = "[''k'']" and d = "[7]" and ?n1.0 = 5]
  have "storage (Delete cache_marked ''k'') ''k'' = None"
    using d1 by simp
  moreover have "''k'' \<in> expired (snd (Put (Delete cache_marked ''k'') ''a'' [7] 5))"
    using d2 m' n by blast
  moreover have "''k'' \<notin> expired (clear_pass (Delete cache_marked ''k'') [''k''])"
    using d2 i by blast
  moreover have "''k'' \<notin> expired (snd (Put (Delete cache_marked ''k'') ''k'' [7] 5))"
    using d2 s by blast
  ultimately show ?thesis using m m' n i s by blast
qed

section \<open>Get or new\<close>









end
